theory Spec2Isabelle
  imports Complex_Main
begin

section \<open>Python floats\<close>

text \<open>
  \<^verbatim>\<open>resize_image\<close> computes its dimensions with Python floats: \<^verbatim>\<open>a / b\<close> on two
  ints is the correctly rounded IEEE 754 binary64 quotient, \<^verbatim>\<open>n * x\<close> and \<^verbatim>\<open>n / x\<close>
  with an int \<^verbatim>\<open>n\<close> and a float \<^verbatim>\<open>x\<close> first convert \<^verbatim>\<open>n\<close> to the nearest double, and
  \<^verbatim>\<open>int(x)\<close> truncates toward zero. Rounding is to nearest, ties to the even mantissa.

  A finite double is kept as \<open>Dbl m t\<close>, the number \<open>m * 2 ^ t\<close>, and every operation
  is integer arithmetic on \<open>m\<close> and \<open>t\<close>. Signed zeros are not told apart: nothing in
  the program observes the sign of a zero.
\<close>

datatype dbl = Dbl (mant: int) (expo: int)

datatype pyfloat = Finite dbl | Infinity

datatype py_exn = ZeroDivisionError | OverflowError | LibraryError string

fun bit_length :: "nat \<Rightarrow> nat" where
  "bit_length n = (if n = 0 then 0 else Suc (bit_length (n div 2)))"

declare bit_length.simps [simp del]

text \<open>\<open>floor_log2 p q\<close> is the integer \<open>e\<close> with \<open>2 ^ e \<le> p / q < 2 ^ (e + 1)\<close>, for positive \<open>p\<close> and \<open>q\<close>.\<close>

definition floor_log2 :: "nat \<Rightarrow> nat \<Rightarrow> int" where
  "floor_log2 p q =
     (let d = int (bit_length p) - int (bit_length q)
      in if q * 2 ^ nat d \<le> p * 2 ^ nat (- d) then d else d - 1)"

text \<open>The integer nearest to \<open>p / q\<close>, a tie going to the even one.\<close>

definition round_half_even :: "nat \<Rightarrow> nat \<Rightarrow> nat" where
  "round_half_even p q =
     (let d = p div q; r = p mod q
      in if 2 * r < q then d
         else if q < 2 * r then d + 1
         else if even d then d else d + 1)"

text \<open>
  The double nearest to \<open>p / q\<close> (\<open>q\<close> positive): 53 bits of mantissa in the normal
  range, the fixed exponent \<open>-1074\<close> below it, and \<open>None\<close> when the rounded value reaches
  \<open>2 ^ 1024\<close>.
\<close>

definition round_double :: "nat \<Rightarrow> nat \<Rightarrow> (nat \<times> int) option" where
  "round_double p q =
     (if p = 0 then Some (0, 0)
      else
        let e = floor_log2 p q;
            t = max e (- 1022) - 52;
            m = round_half_even (p * 2 ^ nat (- t)) (q * 2 ^ nat t)
        in if 971 < t \<or> (t = 971 \<and> 2 ^ 53 \<le> m) then None else Some (m, t))"

text \<open>\<^verbatim>\<open>a / b\<close> on two ints.\<close>

definition int_truediv :: "int \<Rightarrow> int \<Rightarrow> py_exn + dbl" where
  "int_truediv a b =
     (if b = 0 then Inl ZeroDivisionError
      else case round_double (nat \<bar>a\<bar>) (nat \<bar>b\<bar>) of
             None \<Rightarrow> Inl OverflowError
           | Some (m, t) \<Rightarrow> Inr (Dbl (sgn a * sgn b * int m) t))"

text \<open>The conversion of an int operand to a float.\<close>

definition float_of_int :: "int \<Rightarrow> py_exn + dbl" where
  "float_of_int n =
     (case round_double (nat \<bar>n\<bar>) 1 of
        None \<Rightarrow> Inl OverflowError
      | Some (m, t) \<Rightarrow> Inr (Dbl (sgn n * int m) t))"

text \<open>\<^verbatim>\<open>x * y\<close> on two floats: no exception, an overflow gives an infinity.\<close>

definition float_mul :: "dbl \<Rightarrow> dbl \<Rightarrow> pyfloat" where
  "float_mul x y =
     (let m = mant x * mant y; t = expo x + expo y
      in case round_double (nat \<bar>m\<bar> * 2 ^ nat t) (2 ^ nat (- t)) of
           None \<Rightarrow> Infinity
         | Some (r, s) \<Rightarrow> Finite (Dbl (sgn m * int r) s))"

text \<open>\<^verbatim>\<open>x / y\<close> on two floats.\<close>

definition float_div :: "dbl \<Rightarrow> dbl \<Rightarrow> py_exn + pyfloat" where
  "float_div x y =
     (if mant y = 0 then Inl ZeroDivisionError
      else
        let t = expo x - expo y
        in case round_double (nat \<bar>mant x\<bar> * 2 ^ nat t) (nat \<bar>mant y\<bar> * 2 ^ nat (- t)) of
             None \<Rightarrow> Inr Infinity
           | Some (r, s) \<Rightarrow> Inr (Finite (Dbl (sgn (mant x) * sgn (mant y) * int r) s)))"

text \<open>\<^verbatim>\<open>x > y\<close> on two floats.\<close>

definition float_gt :: "dbl \<Rightarrow> dbl \<Rightarrow> bool" where
  "float_gt x y =
     (let t = min (expo x) (expo y)
      in mant y * 2 ^ nat (expo y - t) < mant x * 2 ^ nat (expo x - t))"

text \<open>\<^verbatim>\<open>int(x)\<close>: toward zero; an infinity raises \<^verbatim>\<open>OverflowError\<close>.\<close>

definition int_of_float :: "pyfloat \<Rightarrow> py_exn + int" where
  "int_of_float x =
     (case x of
        Infinity \<Rightarrow> Inl OverflowError
      | Finite (Dbl m t) \<Rightarrow>
          Inr (if 0 \<le> t then m * 2 ^ nat t else sgn m * (\<bar>m\<bar> div 2 ^ nat (- t))))"

text \<open>\<^verbatim>\<open>n * x\<close> and \<^verbatim>\<open>n / x\<close> with an int \<^verbatim>\<open>n\<close> and a float \<^verbatim>\<open>x\<close>, and the \<^verbatim>\<open>int(...)\<close> around them.\<close>

definition int_times_float :: "int \<Rightarrow> dbl \<Rightarrow> py_exn + pyfloat" where
  "int_times_float n x =
     (case float_of_int n of Inl e \<Rightarrow> Inl e | Inr f \<Rightarrow> Inr (float_mul f x))"

definition int_over_float :: "int \<Rightarrow> dbl \<Rightarrow> py_exn + pyfloat" where
  "int_over_float n x =
     (case float_of_int n of Inl e \<Rightarrow> Inl e | Inr f \<Rightarrow> float_div f x)"

definition to_int :: "py_exn + pyfloat \<Rightarrow> py_exn + int" where
  "to_int r = (case r of Inl e \<Rightarrow> Inl e | Inr x \<Rightarrow> int_of_float x)"

section \<open>The dimensions of the resized image\<close>

text \<open>
  Lines 71 to 100 of \<^verbatim>\<open>resize_image\<close>. \<^verbatim>\<open>width\<close> and \<^verbatim>\<open>height\<close> are \<^verbatim>\<open>None\<close> or an
  int, and \<^verbatim>\<open>if width\<close> holds for an int other than 0. The result is the pair
  \<^verbatim>\<open>(new_width, new_height)\<close>, or the way the block is left without one: the
  \<^verbatim>\<open>return False\<close> of the last branch, or an exception of the arithmetic.
\<close>

datatype failure = NoDimensions | Raised py_exn

definition truthy :: "int option \<Rightarrow> bool" where
  "truthy v = (case v of None \<Rightarrow> False | Some n \<Rightarrow> n \<noteq> 0)"

definition raising :: "py_exn + 'a \<Rightarrow> ('a \<Rightarrow> failure + 'b) \<Rightarrow> failure + 'b" where
  "raising r k = (case r of Inl e \<Rightarrow> Inl (Raised e) | Inr v \<Rightarrow> k v)"

definition new_dimensions ::
  "int \<Rightarrow> int \<Rightarrow> int option \<Rightarrow> int option \<Rightarrow> bool \<Rightarrow> failure + int \<times> int" where
  "new_dimensions original_width original_height width height maintain_aspect =
     (if truthy width \<and> truthy height then
        if maintain_aspect then
          raising (int_truediv original_width original_height) (\<lambda>aspect_ratio.
          raising (int_truediv (the width) (the height)) (\<lambda>target_ratio.
            if float_gt target_ratio aspect_ratio then
              raising (to_int (int_times_float (the height) aspect_ratio)) (\<lambda>new_width.
                Inr (new_width, the height))
            else
              raising (to_int (int_over_float (the width) aspect_ratio)) (\<lambda>new_height.
                Inr (the width, new_height))))
        else Inr (the width, the height)
      else if truthy width then
        raising (int_truediv original_height original_width) (\<lambda>aspect_ratio.
        raising (to_int (int_times_float (the width) aspect_ratio)) (\<lambda>new_height.
          Inr (the width, new_height)))
      else if truthy height then
        raising (int_truediv original_width original_height) (\<lambda>aspect_ratio.
        raising (to_int (int_times_float (the height) aspect_ratio)) (\<lambda>new_width.
          Inr (new_width, the height)))
      else Inl NoDimensions)"

section \<open>Strings and paths\<close>

text \<open>
  Format names, extensions and paths are ASCII strings. \<^verbatim>\<open>str.upper\<close> and \<^verbatim>\<open>str.lower\<close>
  change the 26 letters and leave every other ASCII character as it is.
\<close>

definition upper_char :: "char \<Rightarrow> char" where
  "upper_char c =
     (case map_of (zip ''abcdefghijklmnopqrstuvwxyz'' ''ABCDEFGHIJKLMNOPQRSTUVWXYZ'') c of
        None \<Rightarrow> c
      | Some u \<Rightarrow> u)"

definition lower_char :: "char \<Rightarrow> char" where
  "lower_char c =
     (case map_of (zip ''ABCDEFGHIJKLMNOPQRSTUVWXYZ'' ''abcdefghijklmnopqrstuvwxyz'') c of
        None \<Rightarrow> c
      | Some l \<Rightarrow> l)"

definition upper :: "string \<Rightarrow> string" where
  "upper s = map upper_char s"

definition lower :: "string \<Rightarrow> string" where
  "lower s = map lower_char s"

text \<open>\<^verbatim>\<open>os.path.basename\<close>, \<^verbatim>\<open>os.path.join\<close> on two components and \<^verbatim>\<open>os.path.splitext\<close>, for POSIX paths.\<close>

definition basename :: "string \<Rightarrow> string" where
  "basename p = rev (takeWhile (\<lambda>c. c \<noteq> CHR ''/'') (rev p))"

definition path_join :: "string \<Rightarrow> string \<Rightarrow> string" where
  "path_join a b =
     (if b \<noteq> [] \<and> hd b = CHR ''/'' then b
      else if a = [] \<or> last a = CHR ''/'' then a @ b
      else a @ ''/'' @ b)"

text \<open>
  The extension starts at the last dot of the last component, unless only dots come
  before it there: \<^verbatim>\<open>splitext('a.tar.gz') = ('a.tar', '.gz')\<close>, \<^verbatim>\<open>splitext('.rc') = ('.rc', '')\<close>.
\<close>

definition splitext :: "string \<Rightarrow> string \<times> string" where
  "splitext p =
     (let base = basename p;
          after_dot = rev (takeWhile (\<lambda>c. c \<noteq> CHR ''.'') (rev base));
          before_dot = take (length base - length after_dot - 1) base
      in if CHR ''.'' \<in> set base \<and> filter (\<lambda>c. c \<noteq> CHR ''.'') before_dot \<noteq> []
         then (take (length p - length after_dot - 1) p, CHR ''.'' # after_dot)
         else (p, []))"

section \<open>The file system and the imaging library\<close>

text \<open>
  The program reaches the file system through \<^verbatim>\<open>os\<close> and the images through Pillow.
  Both are parameters of the model: \<open>'w\<close> is the state of the file system, \<open>'i\<close> an
  image object, and each field below is one call that the program makes. A call that can
  raise inside the \<^verbatim>\<open>try\<close> of \<^verbatim>\<open>resize_image\<close> returns the exception as a value.
  In this first set of definitions \<^verbatim>\<open>os.makedirs\<close>, \<^verbatim>\<open>os.listdir\<close> and \<^verbatim>\<open>print\<close>
  return: it describes the runs in which the output folder can be made, the input
  folder listed and every line printed. The exceptions of these three calls, which
  nothing in the program catches, come in a section of their own below.
\<close>

record ('w, 'i) env =
  path_exists :: "'w \<Rightarrow> string \<Rightarrow> bool"
  listdir :: "'w \<Rightarrow> string \<Rightarrow> string list"
  isfile :: "'w \<Rightarrow> string \<Rightarrow> bool"
  makedirs :: "'w \<Rightarrow> string \<Rightarrow> 'w"
  image_open :: "'w \<Rightarrow> string \<Rightarrow> py_exn + 'i"
  image_size :: "'i \<Rightarrow> int \<times> int"
  image_mode :: "'i \<Rightarrow> string"
  image_format :: "'i \<Rightarrow> string option"
  image_resize :: "'i \<Rightarrow> int \<times> int \<Rightarrow> py_exn + 'i"
  image_new_rgb :: "int \<times> int \<Rightarrow> nat \<times> nat \<times> nat \<Rightarrow> py_exn + 'i"
  image_convert :: "'i \<Rightarrow> string \<Rightarrow> py_exn + 'i"
  image_last_band :: "'i \<Rightarrow> py_exn + 'i"
  image_paste :: "'i \<Rightarrow> 'i \<Rightarrow> 'i option \<Rightarrow> py_exn + 'i"
  image_save :: "'w \<Rightarrow> 'i \<Rightarrow> string \<Rightarrow> string \<Rightarrow> (int \<times> bool) option \<Rightarrow> py_exn option \<times> 'w"

text \<open>
  \<open>image_resize\<close> is \<^verbatim>\<open>img.resize(size, Image.Resampling.LANCZOS)\<close>, \<open>image_new_rgb\<close> is
  \<^verbatim>\<open>Image.new('RGB', size, colour)\<close>, \<open>image_last_band\<close> is \<^verbatim>\<open>img.split()[-1]\<close>,
  \<open>image_paste dst src mask\<close> is \<^verbatim>\<open>dst.paste(src, mask=mask)\<close> and gives \<^verbatim>\<open>dst\<close> as it is
  afterwards, and \<open>image_save fs img path format opts\<close> is \<^verbatim>\<open>img.save(path, format=format)\<close>,
  with \<^verbatim>\<open>quality\<close> and \<^verbatim>\<open>optimize\<close> when \<open>opts\<close> is given.
\<close>

text \<open>What the program prints, one constructor for each \<^verbatim>\<open>print\<close>.\<close>

datatype message =
    FolderMissing string
  | NoDimensionsWarning string
  | ResizedLine string "int \<times> int" "int \<times> int"
  | ErrorLine string py_exn
  | NoImagesFound string
  | FoundImages nat string
  | OutputFolder string
  | TargetSize "int option" "int option"
  | MaintainAspect bool
  | Rule
  | Completed nat
  | FailedLine nat

section \<open>\<^verbatim>\<open>get_images_from_folder\<close>\<close>

definition default_extensions :: "string list" where
  "default_extensions = [''.jpg'', ''.jpeg'', ''.png'', ''.bmp'', ''.gif'', ''.tiff'', ''.webp'']"

definition get_images_from_folder ::
  "('w, 'i) env \<Rightarrow> 'w \<Rightarrow> string \<Rightarrow> string list option \<Rightarrow> string list \<times> message list" where
  "get_images_from_folder E fs folder_path extensions =
     (let exts = (case extensions of None \<Rightarrow> default_extensions | Some l \<Rightarrow> l)
      in if \<not> path_exists E fs folder_path then ([], [FolderMissing folder_path])
         else
           (map (path_join folder_path)
              (filter (\<lambda>filename. isfile E fs (path_join folder_path filename)
                                   \<and> lower (snd (splitext filename)) \<in> set exts)
                 (listdir E fs folder_path)),
            []))"

section \<open>\<^verbatim>\<open>resize_image\<close>\<close>

text \<open>Lines 112 to 117: the image handed to the JPEG encoder.\<close>

definition rgb_for_jpeg :: "('w, 'i) env \<Rightarrow> 'i \<Rightarrow> py_exn + 'i" where
  "rgb_for_jpeg E resized_img =
     (if image_mode E resized_img \<in> set [''RGBA'', ''LA'', ''P''] then
        case image_new_rgb E (image_size E resized_img) (255, 255, 255) of
          Inl e \<Rightarrow> Inl e
        | Inr rgb_img \<Rightarrow>
            (case (if image_mode E resized_img = ''P''
                   then image_convert E resized_img ''RGBA'' else Inr resized_img) of
               Inl e \<Rightarrow> Inl e
             | Inr src \<Rightarrow>
                 (case (if image_mode E src = ''RGBA''
                        then (case image_last_band E src of
                                Inl e \<Rightarrow> Inl e | Inr band \<Rightarrow> Inr (Some band))
                        else Inr None) of
                    Inl e \<Rightarrow> Inl e
                  | Inr alpha \<Rightarrow> image_paste E rgb_img src alpha))
      else Inr resized_img)"

text \<open>Lines 106 and 107: \<^verbatim>\<open>output_format\<close>, or \<^verbatim>\<open>img.format or 'PNG'\<close> when it is \<^verbatim>\<open>None\<close>.\<close>

definition format_used :: "string option \<Rightarrow> string option \<Rightarrow> string" where
  "format_used output_format native =
     (case output_format of
        Some f \<Rightarrow> f
      | None \<Rightarrow> (case native of None \<Rightarrow> ''PNG'' | Some f \<Rightarrow> if f = [] then ''PNG'' else f))"

definition is_jpeg :: "string \<Rightarrow> bool" where
  "is_jpeg f = (upper f \<in> set [''JPEG'', ''JPG''])"

text \<open>
  The result is the returned bool, the file system afterwards and the lines printed.
  Every exception raised in the body is caught by \<^verbatim>\<open>except Exception\<close>.
\<close>

definition resize_image ::
  "('w, 'i) env \<Rightarrow> 'w \<Rightarrow> string \<Rightarrow> string \<Rightarrow> int option \<Rightarrow> int option \<Rightarrow> bool \<Rightarrow> int
     \<Rightarrow> string option \<Rightarrow> bool \<times> 'w \<times> message list" where
  "resize_image E fs input_path output_path width height maintain_aspect quality output_format =
     (case image_open E fs input_path of
        Inl e \<Rightarrow> (False, fs, [ErrorLine input_path e])
      | Inr img \<Rightarrow>
          (case new_dimensions (fst (image_size E img)) (snd (image_size E img))
                  width height maintain_aspect of
             Inl NoDimensions \<Rightarrow> (False, fs, [NoDimensionsWarning input_path])
           | Inl (Raised e) \<Rightarrow> (False, fs, [ErrorLine input_path e])
           | Inr new_size \<Rightarrow>
               (case image_resize E img new_size of
                  Inl e \<Rightarrow> (False, fs, [ErrorLine input_path e])
                | Inr resized_img \<Rightarrow>
                    (let fmt = format_used output_format (image_format E img);
                         report = [ResizedLine (basename input_path) (image_size E img) new_size]
                     in if is_jpeg fmt then
                          (case rgb_for_jpeg E resized_img of
                             Inl e \<Rightarrow> (False, fs, [ErrorLine input_path e])
                           | Inr rgb \<Rightarrow>
                               (case image_save E fs rgb output_path fmt (Some (quality, True)) of
                                  (Some e, fs') \<Rightarrow> (False, fs', [ErrorLine input_path e])
                                | (None, fs') \<Rightarrow> (True, fs', report)))
                        else
                          (case image_save E fs resized_img output_path fmt None of
                             (Some e, fs') \<Rightarrow> (False, fs', [ErrorLine input_path e])
                           | (None, fs') \<Rightarrow> (True, fs', report))))))"

section \<open>\<^verbatim>\<open>batch_resize_images\<close>\<close>

text \<open>Lines 171 to 184: the name of the output file for one input path.\<close>

definition output_name :: "string \<Rightarrow> string \<Rightarrow> string option \<Rightarrow> string \<Rightarrow> string" where
  "output_name prefix suffix output_format image_path =
     (let filename = basename image_path;
          name = fst (splitext filename);
          ext = snd (splitext filename);
          output_ext =
            (case output_format of
               None \<Rightarrow> ext
             | Some f \<Rightarrow>
                 if f = [] then ext
                 else if upper f \<in> set [''JPEG'', ''JPG''] then ''.jpg''
                 else ''.'' @ lower f)
      in prefix @ name @ suffix @ output_ext)"

record summary =
  total_images :: nat
  success :: nat
  failed :: nat

record settings =
  output_folder :: string
  width :: "int option"
  height :: "int option"
  maintain_aspect :: bool
  quality :: int
  output_format :: "string option"
  prefix :: string
  suffix :: string

text \<open>
  The \<^verbatim>\<open>for\<close> loop of lines 170 to 192, with its two counters; \<open>settings\<close> holds the
  parameters of \<^verbatim>\<open>batch_resize_images\<close> that the loop reads.
\<close>

fun resize_all ::
  "('w, 'i) env \<Rightarrow> settings \<Rightarrow> string list \<Rightarrow> 'w \<Rightarrow> nat \<Rightarrow> nat \<Rightarrow> message list
     \<Rightarrow> 'w \<times> nat \<times> nat \<times> message list" where
  "resize_all E cfg [] fs success_count failed_count printed =
     (fs, success_count, failed_count, printed)"
| "resize_all E cfg (image_path # rest) fs success_count failed_count printed =
     (let output_path =
            path_join (output_folder cfg)
              (output_name (prefix cfg) (suffix cfg) (output_format cfg) image_path)
      in case resize_image E fs image_path output_path (width cfg) (height cfg)
                (maintain_aspect cfg) (quality cfg) (output_format cfg) of
           (ok, fs', lines) \<Rightarrow>
             if ok then resize_all E cfg rest fs' (success_count + 1) failed_count (printed @ lines)
             else resize_all E cfg rest fs' success_count (failed_count + 1) (printed @ lines))"

definition batch_resize_images ::
  "('w, 'i) env \<Rightarrow> 'w \<Rightarrow> string \<Rightarrow> string \<Rightarrow> int option \<Rightarrow> int option \<Rightarrow> bool \<Rightarrow> int
     \<Rightarrow> string option \<Rightarrow> string \<Rightarrow> string \<Rightarrow> summary \<times> 'w \<times> message list" where
  "batch_resize_images E fs input_folder out_folder w h keep_aspect q fmt pre suf =
     (let fs1 = makedirs E fs out_folder;
          image_files = fst (get_images_from_folder E fs1 input_folder None);
          listed = snd (get_images_from_folder E fs1 input_folder None)
      in if image_files = [] then
           (\<lparr>total_images = 0, success = 0, failed = 0\<rparr>, fs1, listed @ [NoImagesFound input_folder])
         else
           (let cfg = \<lparr>output_folder = out_folder, width = w, height = h,
                       maintain_aspect = keep_aspect, quality = q, output_format = fmt,
                       prefix = pre, suffix = suf\<rparr>;
                banner = listed @ [FoundImages (length image_files) input_folder,
                           OutputFolder out_folder, TargetSize w h, MaintainAspect keep_aspect, Rule]
            in case resize_all E cfg image_files fs1 0 0 banner of
                 (fs2, success_count, failed_count, printed) \<Rightarrow>
                   (\<lparr>total_images = length image_files, success = success_count, failed = failed_count\<rparr>,
                    fs2,
                    printed @ [Rule, Completed success_count]
                      @ (if 0 < failed_count then [FailedLine failed_count] else []))))"

section \<open>\<^verbatim>\<open>main\<close>\<close>



section \<open>A small environment for concrete runs\<close>

text \<open>
  An instance of the environment on which the program can be run by evaluation. An image
  is the term of the library calls that made it, starting from a decoded file with its
  mode, size and format; the file system is a list of folders and a list of files by path.
\<close>

datatype sym_img =
    Decoded string "int \<times> int" "string option"
  | Resampled sym_img "int \<times> int"
  | Converted sym_img string
  | Blank "int \<times> int" "nat \<times> nat \<times> nat"
  | LastBand sym_img
  | Pasted sym_img sym_img "sym_img option"

datatype sym_file = Picture sym_img | Written sym_img string "(int \<times> bool) option" | Junk

record sym_fs =
  folders :: "string list"
  files :: "(string \<times> sym_file) list"

fun sym_size :: "sym_img \<Rightarrow> int \<times> int" where
  "sym_size (Decoded m sz f) = sz"
| "sym_size (Resampled i sz) = sz"
| "sym_size (Converted i m) = sym_size i"
| "sym_size (Blank sz c) = sz"
| "sym_size (LastBand i) = sym_size i"
| "sym_size (Pasted d s m) = sym_size d"

fun sym_mode :: "sym_img \<Rightarrow> string" where
  "sym_mode (Decoded m sz f) = m"
| "sym_mode (Resampled i sz) = sym_mode i"
| "sym_mode (Converted i m) = m"
| "sym_mode (Blank sz c) = ''RGB''"
| "sym_mode (LastBand i) = ''L''"
| "sym_mode (Pasted d s m) = sym_mode d"

fun sym_format :: "sym_img \<Rightarrow> string option" where
  "sym_format (Decoded m sz f) = f"
| "sym_format i = None"

definition sym_open :: "sym_fs \<Rightarrow> string \<Rightarrow> py_exn + sym_img" where
  "sym_open fs p =
     (case map_of (files fs) p of
        None \<Rightarrow> Inl (LibraryError ''No such file or directory'')
      | Some Junk \<Rightarrow> Inl (LibraryError ''cannot identify image file'')
      | Some (Picture i) \<Rightarrow> Inr i
      | Some (Written i f opts) \<Rightarrow> Inr (Decoded (sym_mode i) (sym_size i) (Some (upper f))))"

definition sym_resize :: "sym_img \<Rightarrow> int \<times> int \<Rightarrow> py_exn + sym_img" where
  "sym_resize i sz =
     (if fst sz < 1 \<or> snd sz < 1 then Inl (LibraryError ''height and width must be > 0'')
      else Inr (Resampled i sz))"

definition sym_env :: "(sym_fs, sym_img) env" where
  "sym_env =
     \<lparr>path_exists = (\<lambda>fs p. p \<in> set (folders fs)),
      listdir = (\<lambda>fs d. map basename (filter (\<lambda>p. path_join d (basename p) = p) (map fst (files fs)))),
      isfile = (\<lambda>fs p. p \<in> set (map fst (files fs))),
      makedirs = (\<lambda>fs d. if d \<in> set (folders fs) then fs else fs\<lparr>folders := d # folders fs\<rparr>),
      image_open = sym_open,
      image_size = sym_size,
      image_mode = sym_mode,
      image_format = sym_format,
      image_resize = sym_resize,
      image_new_rgb = (\<lambda>sz c. Inr (Blank sz c)),
      image_convert = (\<lambda>i m. Inr (Converted i m)),
      image_last_band = (\<lambda>i. Inr (LastBand i)),
      image_paste = (\<lambda>d s m. Inr (Pasted d s m)),
      image_save = (\<lambda>fs i p f opts. (None, fs\<lparr>files := (p, Written i f opts) # files fs\<rparr>))\<rparr>"

text \<open>The lines that report one image: resized, or not.\<close>

fun is_success_line :: "message \<Rightarrow> bool" where
  "is_success_line (ResizedLine n a b) = True"
| "is_success_line m = False"

fun is_failure_line :: "message \<Rightarrow> bool" where
  "is_failure_line (ErrorLine p e) = True"
| "is_failure_line (NoDimensionsWarning p) = True"
| "is_failure_line m = False"

text \<open>
  The naming rule of the specification: the extension that belongs to a format,
  \<^verbatim>\<open>.jpg\<close> for JPEG and JPG and the lower-case format name for the others.
\<close>

definition extension_for :: "string \<Rightarrow> string" where
  "extension_for f = (if upper f \<in> set [''JPEG'', ''JPG''] then ''.jpg'' else ''.'' @ lower f)"

section \<open>The exceptions of \<^verbatim>\<open>os\<close> and \<^verbatim>\<open>print\<close>\<close>

text \<open>
  The definitions above describe the runs in which \<^verbatim>\<open>os.makedirs\<close>, \<^verbatim>\<open>os.listdir\<close> and
  \<^verbatim>\<open>print\<close> return. Each of the three can raise: \<^verbatim>\<open>os.makedirs\<close> when the folder
  cannot be made, \<^verbatim>\<open>os.listdir\<close> when the path exists and is not a folder that can be
  read, \<^verbatim>\<open>print\<close> when the console cannot encode the line. The definitions of this
  section follow the same source lines with these three calls as they are: \<open>Inl\<close> is an
  exception that leaves the function.
\<close>

record 'w raising_calls =
  os_makedirs :: "'w \<Rightarrow> string \<Rightarrow> py_exn + 'w"
  os_listdir :: "'w \<Rightarrow> string \<Rightarrow> py_exn + string list"
  print_line :: "message \<Rightarrow> py_exn option"

text \<open>Several \<^verbatim>\<open>print\<close> calls in a row: the first exception ends them.\<close>

fun print_all :: "'w raising_calls \<Rightarrow> message list \<Rightarrow> py_exn option" where
  "print_all P [] = None"
| "print_all P (m # ms) = (case print_line P m of Some e \<Rightarrow> Some e | None \<Rightarrow> print_all P ms)"

definition get_images_from_folder_exc ::
  "('w, 'i) env \<Rightarrow> 'w raising_calls \<Rightarrow> 'w \<Rightarrow> string \<Rightarrow> string list option
     \<Rightarrow> py_exn + string list \<times> message list" where
  "get_images_from_folder_exc E P fs folder_path extensions =
     (let exts = (case extensions of None \<Rightarrow> default_extensions | Some l \<Rightarrow> l)
      in if \<not> path_exists E fs folder_path then
           (case print_line P (FolderMissing folder_path) of
              Some e \<Rightarrow> Inl e
            | None \<Rightarrow> Inr ([], [FolderMissing folder_path]))
         else
           (case os_listdir P fs folder_path of
              Inl e \<Rightarrow> Inl e
            | Inr names \<Rightarrow>
                Inr (map (path_join folder_path)
                       (filter (\<lambda>filename. isfile E fs (path_join folder_path filename)
                                            \<and> lower (snd (splitext filename)) \<in> set exts)
                          names),
                     [])))"

text \<open>
  Lines 126 to 128, the \<^verbatim>\<open>except\<close> clause of \<^verbatim>\<open>resize_image\<close>: its \<^verbatim>\<open>print\<close> is outside
  the \<^verbatim>\<open>try\<close>, so an exception of it leaves \<^verbatim>\<open>resize_image\<close>.
\<close>

definition except_clause ::
  "'w raising_calls \<Rightarrow> string \<Rightarrow> 'w \<Rightarrow> py_exn \<Rightarrow> py_exn + bool \<times> 'w \<times> message list" where
  "except_clause P input_path fs e =
     (case print_line P (ErrorLine input_path e) of
        Some e' \<Rightarrow> Inl e'
      | None \<Rightarrow> Inr (False, fs, [ErrorLine input_path e]))"

text \<open>
  The last statements of a path through the \<^verbatim>\<open>try\<close>: the line is printed and the bool
  returned, and an exception of the \<^verbatim>\<open>print\<close> goes to the \<^verbatim>\<open>except\<close> clause.
\<close>

definition print_and_return ::
  "'w raising_calls \<Rightarrow> string \<Rightarrow> 'w \<Rightarrow> message \<Rightarrow> bool \<Rightarrow> py_exn + bool \<times> 'w \<times> message list" where
  "print_and_return P input_path fs line result =
     (case print_line P line of
        Some e \<Rightarrow> except_clause P input_path fs e
      | None \<Rightarrow> Inr (result, fs, [line]))"

definition resize_image_exc ::
  "('w, 'i) env \<Rightarrow> 'w raising_calls \<Rightarrow> 'w \<Rightarrow> string \<Rightarrow> string \<Rightarrow> int option \<Rightarrow> int option
     \<Rightarrow> bool \<Rightarrow> int \<Rightarrow> string option \<Rightarrow> py_exn + bool \<times> 'w \<times> message list" where
  "resize_image_exc E P fs input_path output_path w h keep_aspect q fmt =
     (case image_open E fs input_path of
        Inl e \<Rightarrow> except_clause P input_path fs e
      | Inr img \<Rightarrow>
          (case new_dimensions (fst (image_size E img)) (snd (image_size E img))
                  w h keep_aspect of
             Inl NoDimensions \<Rightarrow>
               print_and_return P input_path fs (NoDimensionsWarning input_path) False
           | Inl (Raised e) \<Rightarrow> except_clause P input_path fs e
           | Inr new_size \<Rightarrow>
               (case image_resize E img new_size of
                  Inl e \<Rightarrow> except_clause P input_path fs e
                | Inr resized_img \<Rightarrow>
                    (let used = format_used fmt (image_format E img);
                         report = ResizedLine (basename input_path) (image_size E img) new_size
                     in if is_jpeg used then
                          (case rgb_for_jpeg E resized_img of
                             Inl e \<Rightarrow> except_clause P input_path fs e
                           | Inr rgb \<Rightarrow>
                               (case image_save E fs rgb output_path used (Some (q, True)) of
                                  (Some e, fs') \<Rightarrow> except_clause P input_path fs' e
                                | (None, fs') \<Rightarrow> print_and_return P input_path fs' report True))
                        else
                          (case image_save E fs resized_img output_path used None of
                             (Some e, fs') \<Rightarrow> except_clause P input_path fs' e
                           | (None, fs') \<Rightarrow> print_and_return P input_path fs' report True)))))"

fun resize_all_exc ::
  "('w, 'i) env \<Rightarrow> 'w raising_calls \<Rightarrow> settings \<Rightarrow> string list \<Rightarrow> 'w \<Rightarrow> nat \<Rightarrow> nat
     \<Rightarrow> message list \<Rightarrow> py_exn + 'w \<times> nat \<times> nat \<times> message list" where
  "resize_all_exc E P cfg [] fs success_count failed_count printed =
     Inr (fs, success_count, failed_count, printed)"
| "resize_all_exc E P cfg (image_path # rest) fs success_count failed_count printed =
     (let output_path =
            path_join (output_folder cfg)
              (output_name (prefix cfg) (suffix cfg) (output_format cfg) image_path)
      in case resize_image_exc E P fs image_path output_path (width cfg) (height cfg)
                (maintain_aspect cfg) (quality cfg) (output_format cfg) of
           Inl e \<Rightarrow> Inl e
         | Inr (ok, fs', lines) \<Rightarrow>
             if ok then
               resize_all_exc E P cfg rest fs' (success_count + 1) failed_count (printed @ lines)
             else
               resize_all_exc E P cfg rest fs' success_count (failed_count + 1) (printed @ lines))"

definition batch_resize_images_exc ::
  "('w, 'i) env \<Rightarrow> 'w raising_calls \<Rightarrow> 'w \<Rightarrow> string \<Rightarrow> string \<Rightarrow> int option \<Rightarrow> int option
     \<Rightarrow> bool \<Rightarrow> int \<Rightarrow> string option \<Rightarrow> string \<Rightarrow> string
     \<Rightarrow> py_exn + summary \<times> 'w \<times> message list" where
  "batch_resize_images_exc E P fs input_folder out_folder w h keep_aspect q fmt pre suf =
     (case os_makedirs P fs out_folder of
        Inl e \<Rightarrow> Inl e
      | Inr fs1 \<Rightarrow>
          (case get_images_from_folder_exc E P fs1 input_folder None of
             Inl e \<Rightarrow> Inl e
           | Inr (image_files, listed) \<Rightarrow>
               if image_files = [] then
                 (case print_line P (NoImagesFound input_folder) of
                    Some e \<Rightarrow> Inl e
                  | None \<Rightarrow>
                      Inr (\<lparr>total_images = 0, success = 0, failed = 0\<rparr>, fs1,
                           listed @ [NoImagesFound input_folder]))
               else
                 (let cfg = \<lparr>output_folder = out_folder, width = w, height = h,
                             maintain_aspect = keep_aspect, quality = q, output_format = fmt,
                             prefix = pre, suffix = suf\<rparr>;
                      banner = [FoundImages (length image_files) input_folder,
                                OutputFolder out_folder, TargetSize w h,
                                MaintainAspect keep_aspect, Rule]
                  in case print_all P banner of
                       Some e \<Rightarrow> Inl e
                     | None \<Rightarrow>
                         (case resize_all_exc E P cfg image_files fs1 0 0 (listed @ banner) of
                            Inl e \<Rightarrow> Inl e
                          | Inr (fs2, success_count, failed_count, printed) \<Rightarrow>
                              (let ending = [Rule, Completed success_count]
                                     @ (if 0 < failed_count then [FailedLine failed_count] else [])
                               in case print_all P ending of
                                    Some e \<Rightarrow> Inl e
                                  | None \<Rightarrow>
                                      Inr (\<lparr>total_images = length image_files,
                                            success = success_count, failed = failed_count\<rparr>,
                                           fs2, printed @ ending))))))"

text \<open>
  What the batch is to do with the files it has listed: each file in turn goes
  through \<^verbatim>\<open>resize_image\<close>, on the file system as the files before it have left it and
  whatever their results were. The results, the last file system and the lines printed.
\<close>

fun each_image ::
  "('w, 'i) env \<Rightarrow> settings \<Rightarrow> string list \<Rightarrow> 'w \<Rightarrow> bool list \<times> 'w \<times> message list" where
  "each_image E cfg [] fs = ([], fs, [])"
| "each_image E cfg (image_path # rest) fs =
     (case resize_image E fs image_path
             (path_join (output_folder cfg)
                (output_name (prefix cfg) (suffix cfg) (output_format cfg) image_path))
             (width cfg) (height cfg) (maintain_aspect cfg) (quality cfg) (output_format cfg) of
        (ok, fs', lines) \<Rightarrow>
          (case each_image E cfg rest fs' of
             (oks, fs'', later) \<Rightarrow> (ok # oks, fs'', lines @ later)))"

text \<open>The real number that a finite double stands for.\<close>

definition dval :: "dbl \<Rightarrow> real" where
  "dval x = of_int (mant x) * 2 powi expo x"

section \<open>Correct rounding\<close>

lemma bit_length_bounds:
  "0 < n \<Longrightarrow> 2 ^ (bit_length n - 1) \<le> n \<and> n < 2 ^ bit_length n"
proof (induction n rule: bit_length.induct)
  case (1 n)
  show ?case
  proof (cases "n div 2 = 0")
    case True
    with 1 have "n = 1" by presburger
    then show ?thesis by (simp add: bit_length.simps)
  next
    case False
    then have pos: "0 < n div 2" by simp
    from 1 pos have IH: "2 ^ (bit_length (n div 2) - 1) \<le> n div 2 \<and> n div 2 < 2 ^ bit_length (n div 2)"
      by simp
    have bl: "bit_length n = Suc (bit_length (n div 2))"
      using 1 by (simp add: bit_length.simps[of n])
    have blpos: "0 < bit_length (n div 2)"
      using pos by (simp add: bit_length.simps[of "n div 2"])
    then obtain k where k: "bit_length (n div 2) = Suc k" by (cases "bit_length (n div 2)") auto
    from IH k have "2 ^ k \<le> n div 2" "n div 2 < 2 ^ Suc k" by simp_all
    then have "2 * 2 ^ k \<le> n" "n < 2 * 2 ^ Suc k" by presburger+
    then show ?thesis by (simp add: bl k)
  qed
qed

lemma round_half_even_error:
  assumes "0 < q"
  shows "\<bar>real (round_half_even p q) - real p / real q\<bar> \<le> 1 / 2"
proof -
  define d where "d = p div q"
  define r where "r = p mod q"
  have p: "p = d * q + r" by (simp add: d_def r_def)
  have rq: "r < q" using assms by (simp add: r_def)
  have quot: "real p / real q = real d + real r / real q"
    using assms by (simp add: p field_simps)
  have frac0: "0 \<le> real r / real q" by simp
  have frac1: "real r / real q < 1" using rq assms by simp
  consider "2 * r < q" | "q < 2 * r" | "2 * r = q" by linarith
  then show ?thesis
  proof cases
    case 1
    then have "real r / real q \<le> 1 / 2" using assms by (simp add: field_simps)
    moreover have "round_half_even p q = d" using 1 by (simp add: round_half_even_def d_def r_def Let_def)
    ultimately show ?thesis using frac0 by (simp add: quot)
  next
    case 2
    then have "1 / 2 \<le> real r / real q" using assms by (simp add: field_simps)
    moreover have "round_half_even p q = d + 1" using 2 by (simp add: round_half_even_def d_def r_def Let_def)
    ultimately show ?thesis using frac1 by (simp add: quot)
  next
    case 3
    then have half: "real r / real q = 1 / 2" using assms by (simp add: field_simps)
    have pq: "real p / real q = real d + 1 / 2" unfolding quot half by simp
    have "round_half_even p q = d \<or> round_half_even p q = d + 1"
      using 3 by (simp add: round_half_even_def d_def r_def Let_def)
    then show ?thesis
    proof
      assume "round_half_even p q = d"
      then show ?thesis unfolding pq by simp
    next
      assume "round_half_even p q = d + 1"
      then show ?thesis unfolding pq by simp
    qed
  qed
qed


lemma pow2_split: "(2::real) powi t = 2 ^ nat t / 2 ^ nat (- t)"
proof (cases "0 \<le> t")
  case True
  then show ?thesis by (simp add: power_int_nonneg_exp)
next
  case False
  then have "(2::real) powi t = inverse (2 powi (- t))" by (simp add: power_int_minus)
  also have "\<dots> = inverse (2 ^ nat (- t))" using False by (simp add: power_int_nonneg_exp)
  finally show ?thesis using False by (simp add: field_simps)
qed

lemma bit_length_real:
  assumes "0 < n"
  shows "\<exists>a::int. a = int (bit_length n) \<and> (2::real) powi (a - 1) \<le> real n \<and> real n < 2 powi a"
proof -
  from bit_length_bounds[OF assms]
  have lo: "2 ^ (bit_length n - 1) \<le> n" and hi: "n < 2 ^ bit_length n" by simp_all
  have pos: "0 < bit_length n" using assms by (simp add: bit_length.simps[of n])
  have e1: "int (bit_length n) - 1 = int (bit_length n - 1)" using pos by simp
  have "real (2 ^ (bit_length n - 1)) \<le> real n" using lo by (simp only: of_nat_le_iff)
  then have l: "(2::real) powi (int (bit_length n) - 1) \<le> real n"
    unfolding e1 by simp
  have "real n < real (2 ^ bit_length n)" using hi by (simp only: of_nat_less_iff)
  then have h: "real n < 2 powi (int (bit_length n))" by simp
  from l h show ?thesis by blast
qed

lemma floor_log2_bounds:
  assumes p: "0 < p" and q: "0 < q"
  shows "(2::real) powi (floor_log2 p q) \<le> real p / real q"
    and "real p / real q < 2 powi (floor_log2 p q + 1)"
proof -
  obtain a :: int where a: "a = int (bit_length p)"
    and pge: "(2::real) powi (a - 1) \<le> real p" and plt: "real p < 2 powi a"
    using bit_length_real[OF p] by blast
  obtain b :: int where b: "b = int (bit_length q)"
    and qge: "(2::real) powi (b - 1) \<le> real q" and qlt: "real q < 2 powi b"
    using bit_length_real[OF q] by blast
  define d where "d = a - b"
  have fl: "floor_log2 p q = (if q * 2 ^ nat d \<le> p * 2 ^ nat (- d) then d else d - 1)"
    by (simp add: floor_log2_def Let_def d_def a b)
  have rq: "0 < real q" using q by simp
  have test: "q * 2 ^ nat d \<le> p * 2 ^ nat (- d) \<longleftrightarrow> (2::real) powi d \<le> real p / real q"
  proof -
    have "q * 2 ^ nat d \<le> p * 2 ^ nat (- d) \<longleftrightarrow> real (q * 2 ^ nat d) \<le> real (p * 2 ^ nat (- d))"
      by (simp only: of_nat_le_iff)
    also have "\<dots> \<longleftrightarrow> real q * 2 ^ nat d \<le> real p * 2 ^ nat (- d)" by simp
    also have "\<dots> \<longleftrightarrow> 2 ^ nat d / 2 ^ nat (- d) \<le> real p / real q"
      using rq by (simp add: field_simps)
    finally show ?thesis by (simp only: pow2_split[symmetric])
  qed
  have up: "real p / real q < 2 powi (d + 1)"
  proof -
    have "real p / real q < 2 powi a / real q"
      using plt rq by (rule divide_strict_right_mono)
    also have "\<dots> \<le> 2 powi a / 2 powi (b - 1)"
      using qge rq by (intro divide_left_mono) simp_all
    also have "\<dots> = 2 powi (a - (b - 1))" by (rule power_int_diff[symmetric]) simp
    also have "a - (b - 1) = d + 1" unfolding d_def by linarith
    finally show ?thesis .
  qed
  have low: "(2::real) powi (d - 1) \<le> real p / real q"
  proof -
    have eq: "d - 1 = (a - 1) - b" unfolding d_def by linarith
    have "(2::real) powi (d - 1) = 2 powi ((a - 1) - b)" by (simp only: eq)
    also have "\<dots> = 2 powi (a - 1) / 2 powi b" by (rule power_int_diff) simp
    also have "\<dots> \<le> real p / 2 powi b"
      using pge by (intro divide_right_mono) simp_all
    also have "\<dots> \<le> real p / real q"
      using qlt rq by (intro divide_left_mono) simp_all
    finally show ?thesis .
  qed
  show "(2::real) powi (floor_log2 p q) \<le> real p / real q"
    using test low by (simp add: fl)
  show "real p / real q < 2 powi (floor_log2 p q + 1)"
    using test up by (auto simp add: fl)
qed


lemma pow2_less_imp: "(2::real) powi a < 2 powi b \<Longrightarrow> a < b"
proof (rule ccontr)
  assume lt: "(2::real) powi a < 2 powi b" and "\<not> a < b"
  then have "b \<le> a" by simp
  then have "(2::real) powi b \<le> 2 powi a" by (intro power_int_increasing) simp_all
  with lt show False by simp
qed

lemma round_double_error:
  assumes p: "0 < p" and q: "0 < q" and r: "round_double p q = Some (m, t)"
  shows "t = max (floor_log2 p q) (- 1022) - 52"
    and "\<bar>real m * 2 powi t - real p / real q\<bar> \<le> 2 powi t / 2"
proof -
  define t' where "t' = max (floor_log2 p q) (- 1022) - 52"
  define m' where "m' = round_half_even (p * 2 ^ nat (- t')) (q * 2 ^ nat t')"
  from r p have "Some (m', t') = Some (m, t)"
    by (simp add: round_double_def Let_def t'_def[symmetric] m'_def[symmetric] split: if_splits)
  then have m: "m = m'" and t: "t = t'" by simp_all
  show "t = max (floor_log2 p q) (- 1022) - 52" by (simp add: t t'_def)
  have qpos: "0 < q * 2 ^ nat t" using q by simp
  have "\<bar>real m - real (p * 2 ^ nat (- t)) / real (q * 2 ^ nat t)\<bar> \<le> 1 / 2"
    unfolding m m'_def t by (rule round_half_even_error) (use q in simp)
  moreover have "real (p * 2 ^ nat (- t)) / real (q * 2 ^ nat t) = (real p / real q) / 2 powi t"
    by (simp add: pow2_split)
  ultimately have e: "\<bar>real m - (real p / real q) / 2 powi t\<bar> \<le> 1 / 2" by simp
  have tp: "(0::real) < 2 powi t" by simp
  have "\<bar>real m * 2 powi t - real p / real q\<bar> = \<bar>real m - (real p / real q) / 2 powi t\<bar> * 2 powi t"
  proof -
    have "real m * 2 powi t - real p / real q = (real m - (real p / real q) / 2 powi t) * 2 powi t"
      by (simp add: field_simps)
    then show ?thesis by (simp only: abs_mult) simp
  qed
  also have "\<dots> \<le> (1 / 2) * 2 powi t"
    using e tp by (intro mult_right_mono) simp_all
  finally show "\<bar>real m * 2 powi t - real p / real q\<bar> \<le> 2 powi t / 2" by simp
qed

lemma round_double_normal:
  assumes p: "0 < p" and q: "0 < q"
    and lo: "2 powi l \<le> real p / real q" and hi: "real p / real q < 2 powi h"
    and l: "- 1022 \<le> l" and h: "h \<le> 1023"
  shows "\<exists>m t. round_double p q = Some (m, t) \<and>
           \<bar>real m * 2 powi t - real p / real q\<bar> \<le> (real p / real q) / 2 ^ 53"
proof -
  define e where "e = floor_log2 p q"
  have e1: "(2::real) powi e \<le> real p / real q" and e2: "real p / real q < 2 powi (e + 1)"
    using floor_log2_bounds[OF p q] by (simp_all add: e_def)
  have "(2::real) powi l < 2 powi (e + 1)" using lo e2 by (rule order_le_less_trans)
  then have "l < e + 1" by (rule pow2_less_imp)
  then have elo: "- 1022 \<le> e" using l by linarith
  have "(2::real) powi e < 2 powi h" using e1 hi by (rule order_le_less_trans)
  then have "e < h" by (rule pow2_less_imp)
  then have ehi: "e \<le> 1022" using h by linarith
  define t where "t = e - 52"
  have tmax: "max (floor_log2 p q) (- 1022) - 52 = t" using elo by (simp add: t_def e_def)
  define m where "m = round_half_even (p * 2 ^ nat (- t)) (q * 2 ^ nat t)"
  have "round_double p q = (if 971 < t \<or> (t = 971 \<and> 2 ^ 53 \<le> m) then None else Some (m, t))"
    using p by (simp only: round_double_def Let_def tmax m_def) simp
  moreover have "t \<le> 970" using ehi by (simp add: t_def)
  ultimately have rd: "round_double p q = Some (m, t)" by simp
  have "\<bar>real m * 2 powi t - real p / real q\<bar> \<le> 2 powi t / 2"
    using round_double_error(2)[OF p q rd] .
  also have "2 powi t / 2 = (2::real) powi e / 2 ^ 53"
  proof -
    have teq: "t = (e - 53) + 1" unfolding t_def by linarith
    have "(2::real) powi t = 2 powi ((e - 53) + 1)" by (subst teq) (rule refl)
    also have "\<dots> = 2 powi (e - 53) * 2" by (rule power_int_add_1) simp
    also have "(2::real) powi (e - 53) = 2 powi e / 2 powi 53" by (rule power_int_diff) simp
    finally show ?thesis by simp
  qed
  also have "\<dots> \<le> (real p / real q) / 2 ^ 53" using e1 by (intro divide_right_mono) simp_all
  finally show ?thesis using rd by blast
qed

section \<open>The float operations on positive values\<close>

lemma dval_pos_iff: "0 < dval x \<longleftrightarrow> 0 < mant x"
proof -
  have "\<not> (2::real) powi expo x < 0" by (simp add: not_less)
  then show ?thesis by (auto simp add: dval_def zero_less_mult_iff)
qed

lemma int_truediv_pos:
  assumes a: "0 < a" and b: "0 < b"
    and lo: "2 powi l \<le> real_of_int a / real_of_int b" and hi: "real_of_int a / real_of_int b < 2 powi h"
    and l: "- 1022 \<le> l" and h: "h \<le> 1023"
  shows "\<exists>x. int_truediv a b = Inr x \<and>
           \<bar>dval x - real_of_int a / real_of_int b\<bar> \<le> (real_of_int a / real_of_int b) / 2 ^ 53"
proof -
  have ra: "real (nat \<bar>a\<bar>) = real_of_int a" and rb: "real (nat \<bar>b\<bar>) = real_of_int b"
    using a b by simp_all
  have pa: "0 < nat \<bar>a\<bar>" and pb: "0 < nat \<bar>b\<bar>" using a b by simp_all
  have lo': "2 powi l \<le> real (nat \<bar>a\<bar>) / real (nat \<bar>b\<bar>)" using lo by (simp only: ra rb)
  have hi': "real (nat \<bar>a\<bar>) / real (nat \<bar>b\<bar>) < 2 powi h" using hi by (simp only: ra rb)
  from round_double_normal[OF pa pb lo' hi' l h] obtain m t where rd: "round_double (nat \<bar>a\<bar>) (nat \<bar>b\<bar>) = Some (m, t)"
    and err: "\<bar>real m * 2 powi t - real_of_int a / real_of_int b\<bar> \<le> (real_of_int a / real_of_int b) / 2 ^ 53"
    unfolding ra rb by blast
  have "int_truediv a b = Inr (Dbl (int m) t)"
    using a b rd by (simp add: int_truediv_def)
  moreover have "dval (Dbl (int m) t) = real m * 2 powi t" by (simp add: dval_def)
  ultimately show ?thesis using err by auto
qed

lemma round_half_even_one: "round_half_even p (Suc 0) = p"
  by (simp add: round_half_even_def)

lemma float_of_int_exact:
  assumes n: "0 < n" and n53: "n < 2 ^ 53"
  shows "\<exists>x. float_of_int n = Inr x \<and> dval x = real_of_int n"
proof -
  define p where "p = nat \<bar>n\<bar>"
  have p: "0 < p" and rp: "real p = real_of_int n" using n by (simp_all add: p_def)
  define e where "e = floor_log2 p 1"
  have e1: "(2::real) powi e \<le> real p" and e2: "real p < 2 powi (e + 1)"
    using floor_log2_bounds[OF p, of 1] by (simp_all add: e_def)
  have "real_of_int n < real_of_int (2 ^ 53)" using n53 by (simp only: of_int_less_iff)
  then have "real p < 2 powi 53" by (simp add: rp)
  with e1 have "(2::real) powi e < 2 powi 53" by (rule order_le_less_trans)
  then have ehi: "e < 53" by (rule pow2_less_imp)
  have "(1::real) \<le> real p" using p by simp
  then have "(2::real) powi 0 < 2 powi (e + 1)" using e2 by simp
  then have "0 < e + 1" by (rule pow2_less_imp)
  then have elo: "0 \<le> e" by simp
  define t where "t = e - 52"
  have tmax: "max (floor_log2 p 1) (- 1022) - 52 = t" using elo by (simp add: t_def e_def)
  have tle: "t \<le> 0" using ehi by (simp add: t_def)
  have nt: "nat t = 0" using tle by simp
  define m where "m = p * 2 ^ nat (- t)"
  have mm: "round_half_even (p * 2 ^ nat (- t)) (1 * 2 ^ nat t) = m"
    by (simp add: nt round_half_even_one m_def)
  have "round_double p 1 = (if 971 < t \<or> (t = 971 \<and> 2 ^ 53 \<le> m) then None else Some (m, t))"
    using p by (simp only: round_double_def Let_def tmax mm) simp
  then have rd: "round_double p 1 = Some (m, t)" using tle by simp
  have fi: "float_of_int n = Inr (Dbl (int m) t)"
    using n rd by (simp add: float_of_int_def p_def)
  have "dval (Dbl (int m) t) = real m * 2 powi t" by (simp add: dval_def)
  also have "\<dots> = real p * (2 ^ nat (- t) * 2 powi t)" by (simp add: m_def)
  also have "2 ^ nat (- t) * (2::real) powi t = 1" using tle by (simp add: pow2_split)
  finally show ?thesis using fi rp by simp
qed


lemma float_mul_pos:
  assumes x: "0 < dval x" and y: "0 < dval y"
    and lo: "2 powi l \<le> dval x * dval y" and hi: "dval x * dval y < 2 powi h"
    and l: "- 1022 \<le> l" and h: "h \<le> 1023"
  shows "\<exists>r. float_mul x y = Finite r \<and> \<bar>dval r - dval x * dval y\<bar> \<le> (dval x * dval y) / 2 ^ 53"
proof -
  define m where "m = mant x * mant y"
  define t where "t = expo x + expo y"
  define p where "p = nat \<bar>m\<bar> * 2 ^ nat t"
  define q where "q = (2::nat) ^ nat (- t)"
  have mx: "0 < mant x" and my: "0 < mant y" using x y by (simp_all add: dval_pos_iff)
  then have mpos: "0 < m" by (simp add: m_def)
  have p: "0 < p" and q: "0 < q" using mpos by (simp_all add: p_def q_def)
  have "real p / real q = real_of_int m * (2 ^ nat t / 2 ^ nat (- t))"
    using mpos by (simp add: p_def q_def)
  also have "\<dots> = real_of_int m * 2 powi t" by (simp only: pow2_split[symmetric])
  also have "\<dots> = dval x * dval y"
    by (simp add: m_def t_def dval_def power_int_add)
  finally have pq: "real p / real q = dval x * dval y" .
  have lo': "2 powi l \<le> real p / real q" and hi': "real p / real q < 2 powi h"
    using lo hi by (simp_all only: pq)
  from round_double_normal[OF p q lo' hi' l h] obtain r s
    where rd: "round_double p q = Some (r, s)"
      and err: "\<bar>real r * 2 powi s - dval x * dval y\<bar> \<le> (dval x * dval y) / 2 ^ 53"
    unfolding pq by blast
  have "float_mul x y = Finite (Dbl (int r) s)"
    using rd mpos unfolding p_def q_def
    by (simp add: float_mul_def Let_def m_def[symmetric] t_def[symmetric])
  moreover have "dval (Dbl (int r) s) = real r * 2 powi s" by (simp add: dval_def)
  ultimately show ?thesis using err by auto
qed

lemma float_div_pos:
  assumes x: "0 < dval x" and y: "0 < dval y"
    and lo: "2 powi l \<le> dval x / dval y" and hi: "dval x / dval y < 2 powi h"
    and l: "- 1022 \<le> l" and h: "h \<le> 1023"
  shows "\<exists>r. float_div x y = Inr (Finite r) \<and> \<bar>dval r - dval x / dval y\<bar> \<le> (dval x / dval y) / 2 ^ 53"
proof -
  define t where "t = expo x - expo y"
  define p where "p = nat \<bar>mant x\<bar> * 2 ^ nat t"
  define q where "q = nat \<bar>mant y\<bar> * 2 ^ nat (- t)"
  have mx: "0 < mant x" and my: "0 < mant y" using x y by (simp_all add: dval_pos_iff)
  have p: "0 < p" and q: "0 < q" using mx my by (simp_all add: p_def q_def)
  have "real p / real q = (real_of_int (mant x) / real_of_int (mant y)) * (2 ^ nat t / 2 ^ nat (- t))"
    using mx my by (simp add: p_def q_def)
  also have "\<dots> = (real_of_int (mant x) / real_of_int (mant y)) * 2 powi t"
    by (simp only: pow2_split[symmetric])
  also have "\<dots> = dval x / dval y"
    by (simp add: t_def dval_def power_int_diff)
  finally have pq: "real p / real q = dval x / dval y" .
  have lo': "2 powi l \<le> real p / real q" and hi': "real p / real q < 2 powi h"
    using lo hi by (simp_all only: pq)
  from round_double_normal[OF p q lo' hi' l h] obtain r s
    where rd: "round_double p q = Some (r, s)"
      and err: "\<bar>real r * 2 powi s - dval x / dval y\<bar> \<le> (dval x / dval y) / 2 ^ 53"
    unfolding pq by blast
  have "float_div x y = Inr (Finite (Dbl (int r) s))"
    using rd mx my unfolding p_def q_def
    by (simp add: float_div_def Let_def t_def[symmetric])
  moreover have "dval (Dbl (int r) s) = real r * 2 powi s" by (simp add: dval_def)
  ultimately show ?thesis using err by auto
qed

lemma float_gt_iff: "float_gt x y \<longleftrightarrow> dval y < dval x"
proof -
  define t where "t = min (expo x) (expo y)"
  have sx: "real_of_int (mant x * 2 ^ nat (expo x - t)) * 2 powi t = dval x"
  proof -
    have "0 \<le> expo x - t" by (simp add: t_def)
    then have "(2::real) ^ nat (expo x - t) = 2 powi (expo x - t)" by (simp add: power_int_nonneg_exp)
    then have "real_of_int (mant x * 2 ^ nat (expo x - t)) * 2 powi t
        = real_of_int (mant x) * (2 powi (expo x - t) * 2 powi t)" by simp
    also have "2 powi (expo x - t) * (2::real) powi t = 2 powi (expo x - t + t)"
      by (rule power_int_add[symmetric]) simp
    finally show ?thesis by (simp add: dval_def)
  qed
  have sy: "real_of_int (mant y * 2 ^ nat (expo y - t)) * 2 powi t = dval y"
  proof -
    have "0 \<le> expo y - t" by (simp add: t_def)
    then have "(2::real) ^ nat (expo y - t) = 2 powi (expo y - t)" by (simp add: power_int_nonneg_exp)
    then have "real_of_int (mant y * 2 ^ nat (expo y - t)) * 2 powi t
        = real_of_int (mant y) * (2 powi (expo y - t) * 2 powi t)" by simp
    also have "2 powi (expo y - t) * (2::real) powi t = 2 powi (expo y - t + t)"
      by (rule power_int_add[symmetric]) simp
    finally show ?thesis by (simp add: dval_def)
  qed
  have "float_gt x y \<longleftrightarrow> mant y * 2 ^ nat (expo y - t) < mant x * 2 ^ nat (expo x - t)"
    by (simp add: float_gt_def Let_def t_def)
  also have "\<dots> \<longleftrightarrow> real_of_int (mant y * 2 ^ nat (expo y - t)) < real_of_int (mant x * 2 ^ nat (expo x - t))"
    by (simp only: of_int_less_iff)
  also have "\<dots> \<longleftrightarrow> real_of_int (mant y * 2 ^ nat (expo y - t)) * 2 powi t
      < real_of_int (mant x * 2 ^ nat (expo x - t)) * 2 powi t"
    by (rule mult_less_cancel_right_pos[symmetric]) simp
  finally show ?thesis by (simp only: sx sy)
qed

lemma int_of_float_floor:
  assumes "0 \<le> dval r"
  shows "int_of_float (Finite r) = Inr \<lfloor>dval r\<rfloor>"
proof -
  obtain m t where r: "r = Dbl m t" by (cases r)
  have m: "0 \<le> m"
  proof (rule ccontr)
    assume "\<not> 0 \<le> m"
    then have "real_of_int m < 0" by simp
    then have "real_of_int m * 2 powi t < 0" by (intro mult_neg_pos) simp_all
    with assms show False by (simp add: r dval_def)
  qed
  show ?thesis
  proof (cases "0 \<le> t")
    case True
    then have "dval r = real_of_int (m * 2 ^ nat t)" by (simp add: r dval_def power_int_nonneg_exp)
    then have "\<lfloor>dval r\<rfloor> = m * 2 ^ nat t" by (simp only: floor_of_int)
    then show ?thesis using True by (simp add: int_of_float_def r)
  next
    case False
    then have "dval r = real_of_int m / real_of_int (2 ^ nat (- t))"
      by (simp add: r dval_def pow2_split)
    then have "\<lfloor>dval r\<rfloor> = m div 2 ^ nat (- t)" by (simp only: floor_divide_of_int_eq)
    moreover have "sgn m * (\<bar>m\<bar> div 2 ^ nat (- t)) = m div 2 ^ nat (- t)"
      using m by (cases "m = 0") (simp_all add: sgn_if)
    ultimately show ?thesis using False by (simp add: int_of_float_def r)
  qed
qed


lemma rel_error_nonneg:
  fixes v z :: real
  assumes "0 < z" and "\<bar>v - z\<bar> \<le> z / 2 ^ 53"
  shows "0 \<le> v"
proof -
  have "z / 2 ^ 53 \<le> z" using assms(1) by (simp add: field_simps)
  with assms(2) show ?thesis by linarith
qed

lemma rel_error_half:
  fixes v z :: real
  assumes "0 < z" and "\<bar>v - z\<bar> \<le> z / 2 ^ 53"
  shows "z / 2 \<le> v" and "v \<le> 2 * z"
proof -
  have "z / 2 ^ 53 \<le> z / 2" using assms(1) by (intro divide_left_mono) simp_all
  with assms(2) show "z / 2 \<le> v" and "v \<le> 2 * z" by linarith+
qed

lemma int_times_float_floor:
  assumes n: "0 < n" and n53: "n < 2 ^ 53" and x: "0 < dval x"
    and lo: "2 powi l \<le> real_of_int n * dval x" and hi: "real_of_int n * dval x < 2 powi h"
    and l: "- 1022 \<le> l" and h: "h \<le> 1023"
  shows "\<exists>v. to_int (int_times_float n x) = Inr \<lfloor>v\<rfloor> \<and>
           \<bar>v - real_of_int n * dval x\<bar> \<le> (real_of_int n * dval x) / 2 ^ 53"
proof -
  from float_of_int_exact[OF n n53] obtain f
    where f: "float_of_int n = Inr f" and fv: "dval f = real_of_int n" by blast
  have fpos: "0 < dval f" using n by (simp add: fv)
  have lo': "2 powi l \<le> dval f * dval x" and hi': "dval f * dval x < 2 powi h"
    using lo hi by (simp_all only: fv)
  from float_mul_pos[OF fpos x lo' hi' l h] obtain r
    where r: "float_mul f x = Finite r"
      and err: "\<bar>dval r - real_of_int n * dval x\<bar> \<le> (real_of_int n * dval x) / 2 ^ 53"
    unfolding fv by blast
  have zpos: "0 < real_of_int n * dval x" using n x by simp
  have "0 \<le> dval r" using zpos err by (rule rel_error_nonneg)
  then have "int_of_float (Finite r) = Inr \<lfloor>dval r\<rfloor>" by (rule int_of_float_floor)
  then have "to_int (int_times_float n x) = Inr \<lfloor>dval r\<rfloor>"
    by (simp add: to_int_def int_times_float_def f r)
  with err show ?thesis by blast
qed

lemma int_over_float_floor:
  assumes n: "0 < n" and n53: "n < 2 ^ 53" and x: "0 < dval x"
    and lo: "2 powi l \<le> real_of_int n / dval x" and hi: "real_of_int n / dval x < 2 powi h"
    and l: "- 1022 \<le> l" and h: "h \<le> 1023"
  shows "\<exists>v. to_int (int_over_float n x) = Inr \<lfloor>v\<rfloor> \<and>
           \<bar>v - real_of_int n / dval x\<bar> \<le> (real_of_int n / dval x) / 2 ^ 53"
proof -
  from float_of_int_exact[OF n n53] obtain f
    where f: "float_of_int n = Inr f" and fv: "dval f = real_of_int n" by blast
  have fpos: "0 < dval f" using n by (simp add: fv)
  have lo': "2 powi l \<le> dval f / dval x" and hi': "dval f / dval x < 2 powi h"
    using lo hi by (simp_all only: fv)
  from float_div_pos[OF fpos x lo' hi' l h] obtain r
    where r: "float_div f x = Inr (Finite r)"
      and err: "\<bar>dval r - real_of_int n / dval x\<bar> \<le> (real_of_int n / dval x) / 2 ^ 53"
    unfolding fv by blast
  have zpos: "0 < real_of_int n / dval x" using n x by simp
  have "0 \<le> dval r" using zpos err by (rule rel_error_nonneg)
  then have "int_of_float (Finite r) = Inr \<lfloor>dval r\<rfloor>" by (rule int_of_float_floor)
  then have "to_int (int_over_float n x) = Inr \<lfloor>dval r\<rfloor>"
    by (simp add: to_int_def int_over_float_def f r)
  with err show ?thesis by blast
qed

lemma ratio_bounded:
  assumes a: "1 \<le> a" "a \<le> 2 ^ 50" and b: "1 \<le> b" "b \<le> 2 ^ 50"
  shows "\<exists>x. int_truediv a b = Inr x \<and>
           \<bar>dval x - real_of_int a / real_of_int b\<bar> \<le> (real_of_int a / real_of_int b) / 2 ^ 53 \<and>
           1 / 2 ^ 51 \<le> dval x \<and> dval x \<le> 2 ^ 51"
proof -
  define z where "z = real_of_int a / real_of_int b"
  have ra: "1 \<le> real_of_int a" "real_of_int a \<le> 2 ^ 50"
    using a by (simp_all add: of_int_le_iff[of a "2 ^ 50", where 'a = real, simplified])
  have rb: "1 \<le> real_of_int b" "real_of_int b \<le> 2 ^ 50"
    using b by (simp_all add: of_int_le_iff[of b "2 ^ 50", where 'a = real, simplified])
  have zlo: "1 / 2 ^ 50 \<le> z"
  proof -
    have "1 / 2 ^ 50 \<le> 1 / real_of_int b" using rb by (intro divide_left_mono) simp_all
    also have "\<dots> \<le> z" unfolding z_def using ra rb by (intro divide_right_mono) simp_all
    finally show ?thesis .
  qed
  have zhi: "z \<le> 2 ^ 50"
  proof -
    have "z \<le> real_of_int a / 1" unfolding z_def using ra rb by (intro divide_left_mono) simp_all
    also have "\<dots> \<le> 2 ^ 50" using ra by simp
    finally show ?thesis .
  qed
  have lo: "2 powi (- 50) \<le> z" using zlo by (simp add: power_int_minus_divide)
  have hi: "z < 2 powi 51" using zhi by simp
  from int_truediv_pos[of a b "- 50" 51] a b lo hi obtain x
    where x: "int_truediv a b = Inr x" and err: "\<bar>dval x - z\<bar> \<le> z / 2 ^ 53"
    unfolding z_def by auto
  have zpos: "0 < z" using zlo by (rule less_le_trans[rotated]) simp
  have "1 / 2 ^ 51 \<le> dval x" using rel_error_half(1)[OF zpos err] zlo by simp
  moreover have "dval x \<le> 2 ^ 51" using rel_error_half(2)[OF zpos err] zhi by simp
  ultimately show ?thesis using x err unfolding z_def by blast
qed


lemma int_le_pow50: "(n::int) \<le> 2 ^ 50 \<Longrightarrow> real_of_int n \<le> 2 ^ 50"
  using of_int_le_iff[of n "2 ^ 50", where 'a = real] by simp

lemma scaled_dimension:
  assumes n: "1 \<le> n" "n \<le> 2 ^ 50" and a: "1 \<le> a" "a \<le> 2 ^ 50" and b: "1 \<le> b" "b \<le> 2 ^ 50"
  shows "\<exists>x v. int_truediv a b = Inr x \<and> to_int (int_times_float n x) = Inr \<lfloor>v\<rfloor> \<and> 0 \<le> v \<and>
           \<bar>v - real_of_int (n * a) / real_of_int b\<bar> \<le> 3 * ((real_of_int (n * a) / real_of_int b) / 2 ^ 53)"
proof -
  define Z where "Z = real_of_int a / real_of_int b"
  define N where "N = real_of_int n"
  from ratio_bounded[OF a b] obtain x where x: "int_truediv a b = Inr x"
    and e1: "\<bar>dval x - Z\<bar> \<le> Z / 2 ^ 53" and xlo: "1 / 2 ^ 51 \<le> dval x" and xhi: "dval x \<le> 2 ^ 51"
    unfolding Z_def by blast
  have N1: "1 \<le> N" and N50: "N \<le> 2 ^ 50" using n int_le_pow50 by (simp_all add: N_def)
  have xpos: "0 < dval x" using xlo by (rule less_le_trans[rotated]) simp
  have Zpos: "0 < Z" using a b by (simp add: Z_def)
  define D where "D = N * dval x"
  have Dlo: "1 / 2 ^ 51 \<le> D"
  proof -
    have "1 * (1 / 2 ^ 51) \<le> N * dval x" using N1 xlo by (intro mult_mono) simp_all
    then show ?thesis by (simp add: D_def)
  qed
  have Dhi: "D \<le> 2 ^ 50 * 2 ^ 51"
    unfolding D_def using N50 xhi N1 xpos by (intro mult_mono) simp_all
  have lo: "2 powi (- 51) \<le> real_of_int n * dval x"
    using Dlo by (simp add: D_def N_def power_int_minus_divide)
  have hi: "real_of_int n * dval x < 2 powi 102"
    using Dhi by (simp add: D_def N_def)
  have n0: "0 < n" and n53: "n < 2 ^ 53" using n by simp_all
  from int_times_float_floor[OF n0 n53 xpos lo hi] obtain v
    where v: "to_int (int_times_float n x) = Inr \<lfloor>v\<rfloor>" and e2: "\<bar>v - D\<bar> \<le> D / 2 ^ 53"
    unfolding D_def N_def by auto
  have Dpos: "0 < D" using Dlo by (rule less_le_trans[rotated]) simp
  have vnn: "0 \<le> v" using Dpos e2 by (rule rel_error_nonneg)
  define P where "P = N * Z"
  have Ppos: "0 < P" using N1 Zpos by (simp add: P_def)
  have e3: "\<bar>D - P\<bar> \<le> P / 2 ^ 53"
  proof -
    have "\<bar>D - P\<bar> = N * \<bar>dval x - Z\<bar>"
      using N1 by (simp add: D_def P_def right_diff_distrib[symmetric] abs_mult)
    also have "\<dots> \<le> N * (Z / 2 ^ 53)" using e1 N1 by (intro mult_left_mono) simp_all
    finally show ?thesis by (simp add: P_def)
  qed
  have "D \<le> 2 * P" using rel_error_half(2)[OF Ppos e3] .
  then have "D / 2 ^ 53 \<le> 2 * (P / 2 ^ 53)" by simp
  with e2 e3 have "\<bar>v - P\<bar> \<le> 3 * (P / 2 ^ 53)" by linarith
  moreover have "P = real_of_int (n * a) / real_of_int b" by (simp add: P_def N_def Z_def)
  ultimately show ?thesis using x v vnn by auto
qed

lemma floor_near_quotient:
  fixes v :: real and K b :: int
  assumes b: "0 < b" and near: "\<bar>v - real_of_int K / real_of_int b\<bar> < 1 / real_of_int b"
  shows "if K mod b = 0 then \<lfloor>v\<rfloor> = K div b \<or> \<lfloor>v\<rfloor> = K div b - 1 else \<lfloor>v\<rfloor> = K div b"
proof -
  define k where "k = K div b"
  define r where "r = K mod b"
  have K: "K = k * b + r" by (simp add: k_def r_def)
  have r0: "0 \<le> r" and rb: "r < b" using b by (simp_all add: r_def)
  have rbpos: "0 < real_of_int b" using b by simp
  have q: "real_of_int K / real_of_int b = real_of_int k + real_of_int r / real_of_int b"
    using b by (simp add: K field_simps)
  have lo: "real_of_int k + (real_of_int r - 1) / real_of_int b < v"
    using near unfolding q by (simp add: diff_divide_distrib)
  have hi: "v < real_of_int k + (real_of_int r + 1) / real_of_int b"
    using near unfolding q by (simp add: add_divide_distrib)
  have "(real_of_int r + 1) / real_of_int b \<le> 1"
    using rb rbpos by (simp add: field_simps)
  with hi have up: "v < real_of_int k + 1" by linarith
  show ?thesis
  proof (cases "r = 0")
    case True
    have "- 1 \<le> (real_of_int r - 1) / real_of_int b"
      using True b by (simp add: field_simps)
    with lo have "real_of_int k - 1 < v" by linarith
    then have "k - 1 \<le> \<lfloor>v\<rfloor>" by (simp add: le_floor_iff)
    moreover have "\<lfloor>v\<rfloor> \<le> k" using up by (simp add: floor_le_iff)
    ultimately show ?thesis using True by (auto simp add: r_def k_def)
  next
    case False
    then have "1 \<le> r" using r0 by simp
    then have "0 \<le> (real_of_int r - 1) / real_of_int b" using rbpos by simp
    with lo have "real_of_int k \<le> v" by linarith
    with up have "\<lfloor>v\<rfloor> = k" by (intro floor_unique) simp_all
    then show ?thesis using False by (simp add: r_def k_def)
  qed
qed

section \<open>The computed dimensions\<close>

lemma near_from_rel:
  fixes v :: real and K b :: int
  assumes b: "0 < b" and K: "0 \<le> K" "K \<le> 2 ^ 50"
    and rel: "\<bar>v - real_of_int K / real_of_int b\<bar> \<le> 3 * ((real_of_int K / real_of_int b) / 2 ^ 53)"
  shows "\<bar>v - real_of_int K / real_of_int b\<bar> < 1 / real_of_int b"
proof -
  have rb: "0 < real_of_int b" using b by simp
  have "real_of_int K \<le> 2 ^ 50" using K(2) by (rule int_le_pow50)
  then have "3 * (real_of_int K / 2 ^ 53) < 1" by simp
  then have "(3 * (real_of_int K / 2 ^ 53)) / real_of_int b < 1 / real_of_int b"
    using rb by (rule divide_strict_right_mono)
  moreover have "(3 * (real_of_int K / 2 ^ 53)) / real_of_int b = 3 * ((real_of_int K / real_of_int b) / 2 ^ 53)"
    by simp
  ultimately show ?thesis using rel by linarith
qed

lemma width_only_dims:
  assumes w: "1 \<le> w" "w \<le> 2 ^ 50" and h: "1 \<le> h" and W: "1 \<le> W" and K: "W * h \<le> 2 ^ 50"
  shows "\<exists>nh. new_dimensions w h (Some W) None ma = Inr (W, nh) \<and>
           (if (W * h) mod w = 0 then nh = (W * h) div w \<or> nh = (W * h) div w - 1
            else nh = (W * h) div w)"
proof -
  have "W * 1 \<le> W * h" using h W by (intro mult_left_mono) simp_all
  then have W50: "W \<le> 2 ^ 50" using K by simp
  have "1 * h \<le> W * h" using h W by (intro mult_right_mono) simp_all
  then have h50: "h \<le> 2 ^ 50" using K by simp
  from scaled_dimension[OF W W50 h h50 w] obtain x v
    where x: "int_truediv h w = Inr x" and v: "to_int (int_times_float W x) = Inr \<lfloor>v\<rfloor>"
      and rel: "\<bar>v - real_of_int (W * h) / real_of_int w\<bar> \<le> 3 * ((real_of_int (W * h) / real_of_int w) / 2 ^ 53)"
    by blast
  have w0: "0 < w" using w by simp
  have K0: "0 \<le> W * h" using W h by simp
  have near: "\<bar>v - real_of_int (W * h) / real_of_int w\<bar> < 1 / real_of_int w"
    using w0 K0 K rel by (rule near_from_rel)
  have nd: "new_dimensions w h (Some W) None ma = Inr (W, \<lfloor>v\<rfloor>)"
    using W by (simp add: new_dimensions_def truthy_def raising_def x v)
  show ?thesis using floor_near_quotient[OF w0 near] nd by simp
qed


lemma height_binds:
  assumes H: "1 \<le> H" "H \<le> 2 ^ 50" and W: "1 \<le> W" "W \<le> 2 ^ 50"
    and a: "1 / 2 ^ 51 \<le> dval a" "dval a \<le> 2 ^ 51"
    and r: "\<bar>dval r - real_of_int W / real_of_int H\<bar> \<le> (real_of_int W / real_of_int H) / 2 ^ 53"
    and gt: "dval a < dval r"
  shows "\<exists>nw. to_int (int_times_float H a) = Inr nw \<and> 0 \<le> nw \<and> nw \<le> W"
proof -
  define N where "N = real_of_int H"
  have N1: "1 \<le> N" and N50: "N \<le> 2 ^ 50" using H int_le_pow50 by (simp_all add: N_def)
  have W50: "real_of_int W \<le> 2 ^ 50" using W(2) by (rule int_le_pow50)
  have apos: "0 < dval a" using a(1) by (rule less_le_trans[rotated]) simp
  define A where "A = N * dval a"
  have Alo: "1 / 2 ^ 51 \<le> A"
  proof -
    have "1 * (1 / 2 ^ 51) \<le> N * dval a" using N1 a(1) by (intro mult_mono) simp_all
    then show ?thesis by (simp add: A_def)
  qed
  have Ahi: "A \<le> 2 ^ 50 * 2 ^ 51"
    unfolding A_def using N50 a(2) N1 apos by (intro mult_mono) simp_all
  have lo: "2 powi (- 51) \<le> real_of_int H * dval a"
    using Alo by (simp add: A_def N_def power_int_minus_divide)
  have hi: "real_of_int H * dval a < 2 powi 102"
    using Ahi by (simp add: A_def N_def)
  have H0: "0 < H" and H53: "H < 2 ^ 53" using H by simp_all
  from int_times_float_floor[OF H0 H53 apos lo hi] obtain v
    where v: "to_int (int_times_float H a) = Inr \<lfloor>v\<rfloor>" and e: "\<bar>v - A\<bar> \<le> A / 2 ^ 53"
    unfolding A_def N_def by auto
  have Apos: "0 < A" using Alo by (rule less_le_trans[rotated]) simp
  have vnn: "0 \<le> v" using Apos e by (rule rel_error_nonneg)
  have AB: "A < N * dval r" unfolding A_def using gt N1 by (intro mult_strict_left_mono) simp_all
  have "N * \<bar>dval r - real_of_int W / N\<bar> \<le> N * ((real_of_int W / N) / 2 ^ 53)"
    using r N1 unfolding N_def by (intro mult_left_mono) simp_all
  moreover have "N * \<bar>dval r - real_of_int W / N\<bar> = \<bar>N * dval r - real_of_int W\<bar>"
  proof -
    have "N * dval r - real_of_int W = N * (dval r - real_of_int W / N)"
      using N1 by (simp add: right_diff_distrib)
    then show ?thesis using N1 by (simp add: abs_mult)
  qed
  moreover have "N * ((real_of_int W / N) / 2 ^ 53) = real_of_int W / 2 ^ 53" using N1 by simp
  ultimately have B: "\<bar>N * dval r - real_of_int W\<bar> \<le> real_of_int W / 2 ^ 53" by simp
  have "real_of_int W / 2 ^ 53 \<le> 1 / 8" using W50 by simp
  with B AB have A1: "A < real_of_int W + 1 / 8" by linarith
  then have "A < 2 ^ 50 + 1 / 8" using W50 by linarith
  then have "A / 2 ^ 53 < 1 / 4" by simp
  with e A1 have "v < real_of_int W + 1" by linarith
  then have "\<lfloor>v\<rfloor> \<le> W" by (simp add: floor_le_iff)
  moreover have "0 \<le> \<lfloor>v\<rfloor>" using vnn by simp
  ultimately show ?thesis using v by blast
qed

lemma width_binds:
  assumes H: "1 \<le> H" "H \<le> 2 ^ 50" and W: "1 \<le> W" "W \<le> 2 ^ 50"
    and a: "1 / 2 ^ 51 \<le> dval a" "dval a \<le> 2 ^ 51"
    and r: "\<bar>dval r - real_of_int W / real_of_int H\<bar> \<le> (real_of_int W / real_of_int H) / 2 ^ 53"
    and ngt: "\<not> dval a < dval r"
  shows "\<exists>nh. to_int (int_over_float W a) = Inr nh \<and> 0 \<le> nh \<and> nh \<le> H"
proof -
  define N where "N = real_of_int H"
  define M where "M = real_of_int W"
  have N1: "1 \<le> N" and N50: "N \<le> 2 ^ 50" using H int_le_pow50 by (simp_all add: N_def)
  have M1: "1 \<le> M" and M50: "M \<le> 2 ^ 50" using W int_le_pow50 by (simp_all add: M_def)
  have apos: "0 < dval a" using a(1) by (rule less_le_trans[rotated]) simp
  define z where "z = M / dval a"
  have zlo: "1 / 2 ^ 51 \<le> z"
  proof -
    have "1 / 2 ^ 51 \<le> 1 / dval a" using a(2) apos by (intro divide_left_mono) simp_all
    also have "\<dots> \<le> M / dval a" using M1 apos by (intro divide_right_mono) simp_all
    finally show ?thesis by (simp add: z_def)
  qed
  have zhi: "z \<le> 2 ^ 50 * 2 ^ 51"
  proof -
    have "M / dval a \<le> 2 ^ 50 / dval a" using M50 apos by (intro divide_right_mono) simp_all
    also have "\<dots> \<le> 2 ^ 50 / (1 / 2 ^ 51)" using a(1) by (intro divide_left_mono) simp_all
    finally show ?thesis by (simp add: z_def)
  qed
  have lo: "2 powi (- 51) \<le> real_of_int W / dval a"
    using zlo by (simp add: z_def M_def power_int_minus_divide)
  have hi: "real_of_int W / dval a < 2 powi 102"
    using zhi by (simp add: z_def M_def)
  have W0: "0 < W" and W53: "W < 2 ^ 53" using W by simp_all
  from int_over_float_floor[OF W0 W53 apos lo hi] obtain v
    where v: "to_int (int_over_float W a) = Inr \<lfloor>v\<rfloor>" and e: "\<bar>v - z\<bar> \<le> z / 2 ^ 53"
    unfolding z_def M_def by auto
  have zpos: "0 < z" using zlo by (rule less_le_trans[rotated]) simp
  have vnn: "0 \<le> v" using zpos e by (rule rel_error_nonneg)
  define rho where "rho = M / N"
  have rhopos: "0 < rho" using M1 N1 by (simp add: rho_def)
  have rlow: "rho * (1 - 1 / 2 ^ 53) \<le> dval r"
  proof -
    have "\<bar>dval r - rho\<bar> \<le> rho / 2 ^ 53" using r by (simp add: rho_def M_def N_def)
    then have "rho - rho / 2 ^ 53 \<le> dval r" by linarith
    then show ?thesis by (simp add: right_diff_distrib)
  qed
  have rpos: "0 < dval r"
  proof -
    have "0 < rho * (1 - 1 / 2 ^ 53)" using rhopos by (intro mult_pos_pos) simp_all
    with rlow show ?thesis by linarith
  qed
  have s1: "N \<le> (N + 1 / 4) * (1 - 1 / 2 ^ 53)" using N50 by (simp add: algebra_simps)
  have "M = rho * N" using N1 by (simp add: rho_def)
  also have "\<dots> \<le> rho * ((N + 1 / 4) * (1 - 1 / 2 ^ 53))"
    using s1 rhopos by (intro mult_left_mono) simp_all
  also have "\<dots> = (N + 1 / 4) * (rho * (1 - 1 / 2 ^ 53))" by (simp add: mult_ac)
  also have "\<dots> \<le> (N + 1 / 4) * dval r" using rlow N1 by (intro mult_left_mono) simp_all
  finally have "M \<le> (N + 1 / 4) * dval r" .
  then have "M / dval r \<le> N + 1 / 4" using rpos by (simp add: pos_divide_le_eq)
  moreover have "z \<le> M / dval r"
    unfolding z_def using ngt rpos M1 by (intro divide_left_mono) simp_all
  ultimately have z1: "z \<le> N + 1 / 4" by linarith
  then have "z \<le> 2 ^ 50 + 1 / 4" using N50 by linarith
  then have "z / 2 ^ 53 < 1 / 4" by simp
  with e z1 have "v < N + 1" by linarith
  then have "\<lfloor>v\<rfloor> \<le> H" by (simp add: floor_le_iff N_def)
  moreover have "0 \<le> \<lfloor>v\<rfloor>" using vnn by simp
  ultimately show ?thesis using v by blast
qed

lemma fit_box_dims:
  assumes w: "1 \<le> w" "w \<le> 2 ^ 50" and h: "1 \<le> h" "h \<le> 2 ^ 50"
    and W: "1 \<le> W" "W \<le> 2 ^ 50" and H: "1 \<le> H" "H \<le> 2 ^ 50"
  shows "\<exists>nw nh. new_dimensions w h (Some W) (Some H) True = Inr (nw, nh) \<and>
           0 \<le> nw \<and> nw \<le> W \<and> 0 \<le> nh \<and> nh \<le> H \<and> (nw = W \<or> nh = H)"
proof -
  from ratio_bounded[OF w h] obtain a where a: "int_truediv w h = Inr a"
    and alo: "1 / 2 ^ 51 \<le> dval a" and ahi: "dval a \<le> 2 ^ 51" by blast
  from ratio_bounded[OF W H] obtain r where r: "int_truediv W H = Inr r"
    and rerr: "\<bar>dval r - real_of_int W / real_of_int H\<bar> \<le> (real_of_int W / real_of_int H) / 2 ^ 53"
    by blast
  have nd: "new_dimensions w h (Some W) (Some H) True =
      (if float_gt r a then raising (to_int (int_times_float H a)) (\<lambda>nw. Inr (nw, H))
       else raising (to_int (int_over_float W a)) (\<lambda>nh. Inr (W, nh)))"
    using W H by (simp add: new_dimensions_def truthy_def raising_def a r)
  show ?thesis
  proof (cases "dval a < dval r")
    case True
    from height_binds[OF H W alo ahi rerr True] obtain nw
      where "to_int (int_times_float H a) = Inr nw" "0 \<le> nw" "nw \<le> W" by blast
    then show ?thesis using True H by (simp add: nd float_gt_iff raising_def)
  next
    case False
    from width_binds[OF H W alo ahi rerr False] obtain nh
      where "to_int (int_over_float W a) = Inr nh" "0 \<le> nh" "nh \<le> H" by blast
    then show ?thesis using False W by (simp add: nd float_gt_iff raising_def)
  qed
qed

section \<open>Evaluation on concrete sizes\<close>

lemma bit_length_eqI:
  assumes "2 ^ k \<le> n" and "n < 2 ^ Suc k"
  shows "bit_length n = Suc k"
proof -
  have n: "0 < n" using assms(1) by (rule less_le_trans[rotated]) simp
  from bit_length_bounds[OF n]
  have lo: "2 ^ (bit_length n - 1) \<le> n" and hi: "n < 2 ^ bit_length n" by simp_all
  have "(2::nat) ^ k < 2 ^ bit_length n" using assms(1) hi by (rule le_less_trans)
  then have a: "k < bit_length n" by simp
  have "(2::nat) ^ (bit_length n - 1) < 2 ^ Suc k" using lo assms(2) by (rule le_less_trans)
  then have "bit_length n - 1 < Suc k" by (rule power_less_imp_less_exp[rotated]) simp
  with a show ?thesis by simp
qed
lemmas float_eval =
  new_dimensions_def truthy_def raising_def int_truediv_def round_double_def floor_log2_def
  bit_length.simps round_half_even_def Let_def to_int_def int_times_float_def int_over_float_def
  float_of_int_def float_mul_def float_div_def float_gt_def int_of_float_def
lemma width_only_nonneg:
  assumes w: "1 \<le> w" "w \<le> 2 ^ 50" and h: "1 \<le> h" "h \<le> 2 ^ 50" and W: "1 \<le> W" "W \<le> 2 ^ 50"
  shows "\<exists>nh. new_dimensions w h (Some W) None ma = Inr (W, nh) \<and> 0 \<le> nh"
proof -
  from scaled_dimension[OF W h w] obtain x and v :: real
    where x: "int_truediv h w = Inr x" and v: "to_int (int_times_float W x) = Inr \<lfloor>v\<rfloor>"
      and vnn: "0 \<le> v"
    by blast
  have "new_dimensions w h (Some W) None ma = Inr (W, \<lfloor>v\<rfloor>)"
    using W by (simp add: new_dimensions_def truthy_def raising_def x v)
  moreover have "0 \<le> \<lfloor>v\<rfloor>" using vnn by simp
  ultimately show ?thesis by blast
qed

lemma height_only_nonneg:
  assumes w: "1 \<le> w" "w \<le> 2 ^ 50" and h: "1 \<le> h" "h \<le> 2 ^ 50" and H: "1 \<le> H" "H \<le> 2 ^ 50"
  shows "\<exists>nw. new_dimensions w h None (Some H) ma = Inr (nw, H) \<and> 0 \<le> nw"
proof -
  from scaled_dimension[OF H w h] obtain x and v :: real
    where x: "int_truediv w h = Inr x" and v: "to_int (int_times_float H x) = Inr \<lfloor>v\<rfloor>"
      and vnn: "0 \<le> v"
    by blast
  have "new_dimensions w h None (Some H) ma = Inr (\<lfloor>v\<rfloor>, H)"
    using H by (simp add: new_dimensions_def truthy_def raising_def x v)
  moreover have "0 \<le> \<lfloor>v\<rfloor>" using vnn by simp
  ultimately show ?thesis by blast
qed

section \<open>The claims about the dimensions\<close>

text \<open>
  C1, as the code has it. With only a width \<open>W\<close> given and a source of \<open>w\<close> by \<open>h\<close>
  pixels, the new width is \<open>W\<close> and the new height is \<^verbatim>\<open>int(W * (h / w))\<close> in double
  arithmetic. For \<open>W * h\<close> and \<open>w\<close> up to \<open>2 ^ 50\<close> this is the floor of \<open>W * h / w\<close>
  whenever \<open>w\<close> does not divide \<open>W * h\<close>; when it does, it is the quotient or one less.
\<close>

theorem width_only_height:
  assumes "1 \<le> w" and "w \<le> 2 ^ 50" and "1 \<le> h" and "1 \<le> W" and "W * h \<le> 2 ^ 50"
  shows "\<exists>nh. new_dimensions w h (Some W) None True = Inr (W, nh) \<and>
           (if (W * h) mod w = 0 then nh = (W * h) div w \<or> nh = (W * h) div w - 1
            else nh = (W * h) div w)"
  using assms by (rule width_only_dims)

theorem width_only_height_witness:
  "new_dimensions 1000 700 (Some 91) None True = Inr (91, 63)"
proof -
  have "\<exists>nh. new_dimensions 1000 700 (Some 91) None True = Inr (91, nh) \<and>
           (if (91 * 700) mod 1000 = (0::int) then nh = (91 * 700) div 1000 \<or> nh = (91 * 700) div 1000 - 1
            else nh = (91 * 700) div 1000)"
    by (rule width_only_height) simp_all
  then show ?thesis by auto
qed

text \<open>
  C1 as stated fails: a 1000 by 700 source and a width of 90 give the height 62, and
  the floor of \<open>90 * 700 / 1000\<close> is 63. The double nearest to 0.7 is below 0.7, and 90
  times it rounds to the double just below 63.
\<close>

theorem width_only_floor_counterexample:
  "new_dimensions 1000 700 (Some 90) None True = Inr (90, 62) \<and> (90 * 700) div 1000 = (63::int)"
  by (simp add: float_eval)

text \<open>
  C2, as the code has it. For a source and a target box with all four sizes between 1
  and \<open>2 ^ 50\<close> and the aspect ratio kept, the new width is at most the box's width, the
  new height at most its height, and one of the two is equal to it.
\<close>

theorem fit_box:
  assumes "1 \<le> w" and "w \<le> 2 ^ 50" and "1 \<le> h" and "h \<le> 2 ^ 50"
    and "1 \<le> W" and "W \<le> 2 ^ 50" and "1 \<le> H" and "H \<le> 2 ^ 50"
  shows "\<exists>nw nh. new_dimensions w h (Some W) (Some H) True = Inr (nw, nh) \<and>
           nw \<le> W \<and> nh \<le> H \<and> (nw = W \<or> nh = H)"
  using fit_box_dims[OF assms] by blast

theorem fit_box_witness:
  "\<exists>nw nh. new_dimensions 1000 500 (Some 800) (Some 1080) True = Inr (nw, nh) \<and>
           nw \<le> 800 \<and> nh \<le> 1080 \<and> (nw = 800 \<or> nh = 1080)"
  by (rule fit_box) simp_all

text \<open>
  C2 as stated, for every positive size, fails beyond \<open>2 ^ 53\<close>, where an int is no
  longer a double: for a square source and the box of side \<open>2 ^ 53 + 3\<close> the new height
  is \<open>2 ^ 53 + 4\<close>, above the box.
\<close>

theorem fit_box_counterexample:
  "new_dimensions 1 1 (Some 9007199254740995) (Some 9007199254740995) True
     = Inr (9007199254740995, 9007199254740996)"
proof -
  have b0: "bit_length (Suc 0) = Suc 0"
    by (rule bit_length_eqI) simp_all
  have b1: "bit_length 9007199254740995 = Suc 53"
    by (rule bit_length_eqI) simp_all
  have b2: "bit_length 4503599627370496 = Suc 52"
    by (rule bit_length_eqI) simp_all
  have b3: "bit_length 40564819207303358862293012054016 = Suc 105"
    by (rule bit_length_eqI) simp_all
  have r1: "round_double (Suc 0) (Suc 0) = Some (4503599627370496, - 52)"
    by (simp add: round_double_def floor_log2_def round_half_even_def Let_def b0)
  have r2: "round_double 9007199254740995 9007199254740995 = Some (4503599627370496, - 52)"
    by (simp add: round_double_def floor_log2_def round_half_even_def Let_def b1)
  have r3: "round_double 9007199254740995 (Suc 0) = Some (4503599627370498, 1)"
    by (simp add: round_double_def floor_log2_def round_half_even_def Let_def b0 b1)
  have r4: "round_double 40564819207303358862293012054016 4503599627370496
              = Some (4503599627370498, 1)"
    by (simp add: round_double_def floor_log2_def round_half_even_def Let_def b2 b3)
  have a: "int_truediv 1 1 = Inr (Dbl 4503599627370496 (- 52))"
    by (simp add: int_truediv_def r1)
  have r: "int_truediv 9007199254740995 9007199254740995 = Inr (Dbl 4503599627370496 (- 52))"
    by (simp add: int_truediv_def r2)
  have f: "float_of_int 9007199254740995 = Inr (Dbl 4503599627370498 1)"
    by (simp add: float_of_int_def r3)
  have d: "float_div (Dbl 4503599627370498 1) (Dbl 4503599627370496 (- 52))
             = Inr (Finite (Dbl 4503599627370498 1))"
    by (simp add: float_div_def Let_def r4)
  show ?thesis
    by (simp add: new_dimensions_def truthy_def raising_def a r float_gt_def to_int_def
          int_over_float_def f d int_of_float_def)
qed

text \<open>
  C5, as the code has it. For sizes between 1 and \<open>2 ^ 50\<close>, the dimension that comes
  from the request is returned as it is and the computed one is not negative; nothing
  raises it to 1.
\<close>

theorem dimensions_nonnegative:
  assumes "1 \<le> w" and "w \<le> 2 ^ 50" and "1 \<le> h" and "h \<le> 2 ^ 50"
    and "1 \<le> W" and "W \<le> 2 ^ 50" and "1 \<le> H" and "H \<le> 2 ^ 50"
  shows "(\<exists>nh. new_dimensions w h (Some W) None keep = Inr (W, nh) \<and> 0 \<le> nh) \<and>
         (\<exists>nw. new_dimensions w h None (Some H) keep = Inr (nw, H) \<and> 0 \<le> nw) \<and>
         (\<exists>nw nh. new_dimensions w h (Some W) (Some H) keep = Inr (nw, nh) \<and>
                    0 \<le> nw \<and> 0 \<le> nh \<and> (nw = W \<or> nh = H))"
proof (intro conjI)
  show "\<exists>nh. new_dimensions w h (Some W) None keep = Inr (W, nh) \<and> 0 \<le> nh"
    using assms by (intro width_only_nonneg)
  show "\<exists>nw. new_dimensions w h None (Some H) keep = Inr (nw, H) \<and> 0 \<le> nw"
    using assms by (intro height_only_nonneg)
  show "\<exists>nw nh. new_dimensions w h (Some W) (Some H) keep = Inr (nw, nh) \<and>
                    0 \<le> nw \<and> 0 \<le> nh \<and> (nw = W \<or> nh = H)"
  proof (cases keep)
    case True
    from fit_box_dims[OF assms] obtain nw nh
      where "new_dimensions w h (Some W) (Some H) True = Inr (nw, nh)"
        and "0 \<le> nw" and "0 \<le> nh" and "nw = W \<or> nh = H"
      by blast
    then show ?thesis using True by auto
  next
    case False
    then show ?thesis using assms by (simp add: new_dimensions_def truthy_def)
  qed
qed

theorem dimensions_nonnegative_witness:
  "(\<exists>nh. new_dimensions 1000 1 (Some 1) None True = Inr (1, nh) \<and> 0 \<le> nh) \<and>
   (\<exists>nw. new_dimensions 1000 1 None (Some 2) True = Inr (nw, 2) \<and> 0 \<le> nw) \<and>
   (\<exists>nw nh. new_dimensions 1000 1 (Some 1) (Some 2) True = Inr (nw, nh) \<and>
              0 \<le> nw \<and> 0 \<le> nh \<and> (nw = 1 \<or> nh = 2))"
  by (rule dimensions_nonnegative) simp_all

text \<open>
  C5 as stated fails: a 1000 by 1 source and a width of 1 give the height 0, not 1.
\<close>

theorem no_clamp_counterexample:
  "new_dimensions 1000 1 (Some 1) None True = Inr (1, 0)"
  by (simp add: float_eval)


section \<open>The batch\<close>

lemmas path_eval = upper_def lower_def upper_char_def lower_char_def basename_def path_join_def
  splitext_def Let_def

lemma resize_image_line:
  "\<exists>ok fs' l. resize_image E fs src dst wd ht keep q fmt = (ok, fs', [l]) \<and>
      is_success_line l = ok \<and> is_failure_line l = (\<not> ok)"
  by (simp add: resize_image_def Let_def split: sum.split failure.split prod.split option.split)

lemma resize_all_counts:
  "resize_all E cfg xs fs s f pr = (fs', s', f', pr') \<Longrightarrow>
     s' + f' = s + f + length xs \<and>
     length (filter is_success_line pr') + s = length (filter is_success_line pr) + s' \<and>
     length (filter is_failure_line pr') + f = length (filter is_failure_line pr) + f'"
proof (induction xs arbitrary: fs s f pr)
  case Nil
  then show ?case by simp
next
  case (Cons x xs)
  define dst where "dst = path_join (output_folder cfg)
      (output_name (prefix cfg) (suffix cfg) (output_format cfg) x)"
  obtain ok fs1 l where r: "resize_image E fs x dst (width cfg) (height cfg)
      (maintain_aspect cfg) (quality cfg) (output_format cfg) = (ok, fs1, [l])"
    and sl: "is_success_line l = ok" and fl: "is_failure_line l = (\<not> ok)"
    using resize_image_line[of E fs x dst "width cfg" "height cfg" "maintain_aspect cfg"
        "quality cfg" "output_format cfg"]
    by auto
  show ?case
  proof (cases ok)
    case True
    with Cons.prems r have "resize_all E cfg xs fs1 (s + 1) f (pr @ [l]) = (fs', s', f', pr')"
      by (simp add: dst_def Let_def)
    from Cons.IH[OF this] sl fl True show ?thesis by simp
  next
    case False
    with Cons.prems r have "resize_all E cfg xs fs1 s (f + 1) (pr @ [l]) = (fs', s', f', pr')"
      by (simp add: dst_def Let_def)
    from Cons.IH[OF this] sl fl False show ?thesis by simp
  qed
qed

lemma listed_no_report:
  "filter is_success_line (snd (get_images_from_folder E fs d x)) = [] \<and>
   filter is_failure_line (snd (get_images_from_folder E fs d x)) = []"
  by (simp add: get_images_from_folder_def Let_def)

lemma batch_shape:
  fixes E :: "('w, 'i) env"
  defines "n \<equiv> \<lambda>fs inp out. length (fst (get_images_from_folder E (makedirs E fs out) inp None))"
  shows "\<exists>fs' printed s f.
           batch_resize_images E fs inp out w h keep q fmt pre suf
             = (\<lparr>total_images = n fs inp out, success = s, failed = f\<rparr>, fs', printed) \<and>
           s + f = n fs inp out \<and>
           s = length (filter is_success_line printed) \<and>
           f = length (filter is_failure_line printed)"
proof -
  define fs1 where "fs1 = makedirs E fs out"
  define image_files where "image_files = fst (get_images_from_folder E fs1 inp None)"
  define listed where "listed = snd (get_images_from_folder E fs1 inp None)"
  have n: "n fs inp out = length image_files" by (simp add: n_def image_files_def fs1_def)
  have l0: "filter is_success_line listed = []" "filter is_failure_line listed = []"
    using listed_no_report[of E fs1 inp None] by (simp_all only: listed_def)
  show ?thesis
  proof (cases "image_files = []")
    case True
    then have "batch_resize_images E fs inp out w h keep q fmt pre suf
        = (\<lparr>total_images = 0, success = 0, failed = 0\<rparr>, fs1, listed @ [NoImagesFound inp])"
      unfolding image_files_def listed_def fs1_def
      by (simp add: batch_resize_images_def Let_def)
    then show ?thesis using True l0 by (simp add: n)
  next
    case False
    define cfg where "cfg = \<lparr>output_folder = out, width = w, height = h,
                       maintain_aspect = keep, quality = q, output_format = fmt,
                       prefix = pre, suffix = suf\<rparr>"
    define banner where "banner = listed @ [FoundImages (length image_files) inp,
                           OutputFolder out, TargetSize w h, MaintainAspect keep, Rule]"
    obtain fs2 s f pr where loop: "resize_all E cfg image_files fs1 0 0 banner = (fs2, s, f, pr)"
      by (cases "resize_all E cfg image_files fs1 0 0 banner") auto
    from resize_all_counts[OF loop] l0
    have sum: "s + f = length image_files"
      and sc: "length (filter is_success_line pr) = s"
      and fc: "length (filter is_failure_line pr) = f"
      by (simp_all add: banner_def)
    have "batch_resize_images E fs inp out w h keep q fmt pre suf
        = (\<lparr>total_images = length image_files, success = s, failed = f\<rparr>, fs2,
           pr @ [Rule, Completed s] @ (if 0 < f then [FailedLine f] else []))"
      using False loop
      unfolding image_files_def listed_def fs1_def cfg_def banner_def
      by (simp add: batch_resize_images_def Let_def)
    then show ?thesis using sum sc fc by (simp add: n)
  qed
qed

lemmas run_eval = sym_env_def sym_open_def sym_resize_def resize_image_def batch_resize_images_def
  get_images_from_folder_def default_extensions_def format_used_def is_jpeg_def rgb_for_jpeg_def
  output_name_def








text \<open>
  C6, as the code has it. The output file is named prefix, stem, suffix, extension.
  When an output format is asked for, the extension is the one of that format; when
  none is, it is the extension of the input file as it is written there, whatever the
  format of the image inside.
\<close>

theorem output_name_rule:
  "output_name pre suf fmt p =
     pre @ fst (splitext (basename p)) @ suf
       @ (if fmt = None \<or> fmt = Some [] then snd (splitext (basename p))
          else extension_for (the fmt))"
  by (cases fmt) (simp_all add: output_name_def extension_for_def Let_def)

theorem output_name_rule_witness:
  "output_name ''thumb_'' ''_small'' (Some ''JPEG'') ''in/a.png'' = ''thumb_a_small.jpg''"
proof -
  have "output_name ''thumb_'' ''_small'' (Some ''JPEG'') ''in/a.png'' =
     ''thumb_'' @ fst (splitext (basename ''in/a.png'')) @ ''_small''
       @ (if Some ''JPEG'' = None \<or> Some ''JPEG'' = Some [] then snd (splitext (basename ''in/a.png''))
          else extension_for (the (Some ''JPEG'')))"
    by (rule output_name_rule)
  then show ?thesis by (simp add: extension_for_def path_eval)
qed

text \<open>
  C6 as stated fails when no output format is asked for: \<^verbatim>\<open>a.jpeg\<close>, a JPEG image, is
  written to \<^verbatim>\<open>a.jpeg\<close>, and the name by the format of the image would be \<^verbatim>\<open>a.jpg\<close>.
\<close>

theorem output_name_counterexample:
  "output_name [] [] None ''in/a.jpeg'' = ''a.jpeg'' \<and>
   [] @ fst (splitext (basename ''in/a.jpeg'')) @ []
      @ extension_for (format_used None (Some ''JPEG'')) = ''a.jpg''"
  by (simp add: output_name_def extension_for_def format_used_def path_eval)

lemma print_all_quiet:
  assumes "\<forall>m. print_line P m = None"
  shows "print_all P ms = None"
  using assms by (induction ms) simp_all

lemma resize_image_exc_quiet:
  assumes "\<forall>m. print_line P m = None"
  shows "resize_image_exc E P fs src dst wd ht keep q fmt
           = Inr (resize_image E fs src dst wd ht keep q fmt)"
  using assms
  by (simp add: resize_image_exc_def resize_image_def except_clause_def print_and_return_def Let_def
        split: sum.split failure.split prod.split option.split)

lemma resize_all_exc_quiet:
  assumes "\<forall>m. print_line P m = None"
  shows "resize_all_exc E P cfg xs fs s f pr = Inr (resize_all E cfg xs fs s f pr)"
proof (induction xs arbitrary: fs s f pr)
  case Nil
  show ?case by simp
next
  case (Cons x xs)
  show ?case
    by (simp add: resize_image_exc_quiet[OF assms] Cons.IH Let_def split: prod.split)
qed

lemma resize_all_each_image:
  "resize_all E cfg xs fs s f pr =
     (case each_image E cfg xs fs of
        (oks, fs', lines) \<Rightarrow>
          (fs', s + length (filter (\<lambda>ok. ok) oks), f + length (filter Not oks), pr @ lines))"
proof (induction xs arbitrary: fs s f pr)
  case Nil
  show ?case by simp
next
  case (Cons x xs)
  show ?case
    by (simp add: Cons.IH Let_def split: prod.split)
qed

lemma each_image_length:
  "each_image E cfg xs fs = (oks, fs', lines) \<Longrightarrow> length oks = length xs"
proof (induction xs arbitrary: fs oks fs' lines)
  case Nil
  then show ?case by simp
next
  case (Cons x xs)
  then show ?case by (auto split: prod.splits)
qed

lemma get_images_exc_quiet:
  assumes "\<forall>m. print_line P m = None" and "os_listdir P fs d = Inr (listdir E fs d)"
  shows "get_images_from_folder_exc E P fs d x = Inr (get_images_from_folder E fs d x)"
  using assms by (simp add: get_images_from_folder_exc_def get_images_from_folder_def Let_def)

lemma each_image_lines:
  "each_image E cfg xs fs = (oks, fs', lines) \<Longrightarrow>
     map is_success_line lines = oks \<and> map is_failure_line lines = map Not oks"
proof (induction xs arbitrary: fs oks fs' lines)
  case Nil
  then show ?case by simp
next
  case (Cons x xs)
  define dst where "dst = path_join (output_folder cfg)
      (output_name (prefix cfg) (suffix cfg) (output_format cfg) x)"
  obtain ok fs1 l where r: "resize_image E fs x dst (width cfg) (height cfg)
      (maintain_aspect cfg) (quality cfg) (output_format cfg) = (ok, fs1, [l])"
    and sl: "is_success_line l = ok" and fl: "is_failure_line l = (\<not> ok)"
    using resize_image_line[of E fs x dst "width cfg" "height cfg" "maintain_aspect cfg"
        "quality cfg" "output_format cfg"]
    by auto
  obtain oks1 fs2 lines1 where e: "each_image E cfg xs fs1 = (oks1, fs2, lines1)"
    by (cases "each_image E cfg xs fs1") auto
  from Cons.prems r e have "oks = ok # oks1" and "lines = l # lines1"
    by (simp_all add: dst_def)
  with Cons.IH[OF e] sl fl show ?case by simp
qed

lemma per_image_lines:
  assumes "map is_success_line lines = oks" and "map is_failure_line lines = map Not oks"
  shows "filter (\<lambda>m. is_success_line m \<or> is_failure_line m) lines = lines"
proof -
  have "is_success_line m \<or> is_failure_line m" if "m \<in> set lines" for m
  proof -
    from that obtain i where i: "i < length lines" and m: "lines ! i = m"
      by (auto simp add: in_set_conv_nth)
    have "is_success_line (lines ! i) = oks ! i"
      using assms(1) i by (metis nth_map)
    moreover have "is_failure_line (lines ! i) = (\<not> oks ! i)"
      using assms i by (metis length_map nth_map)
    ultimately show ?thesis using m by auto
  qed
  then show ?thesis by (simp add: filter_id_conv)
qed

lemma listed_exc_no_report:
  "get_images_from_folder_exc E P fs d x = Inr (image_files, listed) \<Longrightarrow>
     filter (\<lambda>m. is_success_line m \<or> is_failure_line m) listed = []"
  by (auto simp add: get_images_from_folder_exc_def Let_def split: if_splits option.splits sum.splits)

text \<open>
  C7, as the code has it. When \<^verbatim>\<open>os.makedirs\<close>, the listing of the input folder and the
  \<^verbatim>\<open>print\<close> calls return, \<^verbatim>\<open>batch_resize_images\<close> returns its summary. The total is the
  number of image files listed. Each of them has gone through \<^verbatim>\<open>resize_image\<close> in turn,
  on the file system as the files before it left it and whatever their results were; the
  successes are the files for which it returned \<^verbatim>\<open>True\<close> and the failures the others,
  and each file has its line among those printed, a resized line for a success and an
  error or warning line for a failure. With no image listed the summary is 0, 0, 0.
\<close>

theorem batch_processes_every_image:
  assumes "\<forall>m. print_line P m = None"
    and "os_makedirs P fs out = Inr fs1"
    and "get_images_from_folder_exc E P fs1 inp None = Inr (image_files, listed)"
    and "each_image E \<lparr>output_folder = out, width = w, height = h, maintain_aspect = keep,
                        quality = q, output_format = fmt, prefix = pre, suffix = suf\<rparr>
           image_files fs1 = (oks, fs2, lines)"
  shows "\<exists>printed.
           batch_resize_images_exc E P fs inp out w h keep q fmt pre suf
             = Inr (\<lparr>total_images = length image_files,
                     success = length (filter (\<lambda>ok. ok) oks),
                     failed = length (filter Not oks)\<rparr>, fs2, printed) \<and>
           filter (\<lambda>m. is_success_line m \<or> is_failure_line m) printed = lines \<and>
           map is_success_line lines = oks \<and>
           length oks = length image_files"
proof -
  define cfg where "cfg = \<lparr>output_folder = out, width = w, height = h, maintain_aspect = keep,
                        quality = q, output_format = fmt, prefix = pre, suffix = suf\<rparr>"
  have each: "each_image E cfg image_files fs1 = (oks, fs2, lines)"
    using assms(4) by (simp add: cfg_def)
  have len: "length oks = length image_files" using each by (rule each_image_length)
  have ln: "map is_success_line lines = oks" "map is_failure_line lines = map Not oks"
    using each_image_lines[OF each] by simp_all
  have per: "filter (\<lambda>m. is_success_line m \<or> is_failure_line m) lines = lines"
    using ln by (rule per_image_lines)
  have l0: "filter (\<lambda>m. is_success_line m \<or> is_failure_line m) listed = []"
    using assms(3) by (rule listed_exc_no_report)
  have quiet: "print_all P ms = None" for ms
    using assms(1) by (rule print_all_quiet)
  show ?thesis
  proof (cases "image_files = []")
    case True
    then have "oks = []" "fs2 = fs1" "lines = []" using each by simp_all
    then show ?thesis
      using True assms(1,2,3) l0 by (simp add: batch_resize_images_exc_def)
  next
    case False
    define banner where "banner = [FoundImages (length image_files) inp, OutputFolder out,
        TargetSize w h, MaintainAspect keep, Rule]"
    have loop: "resize_all_exc E P cfg image_files fs1 0 0 (listed @ banner)
        = Inr (fs2, length (filter (\<lambda>ok. ok) oks), length (filter Not oks), (listed @ banner) @ lines)"
      by (simp add: resize_all_exc_quiet[OF assms(1)] resize_all_each_image each)
    have "batch_resize_images_exc E P fs inp out w h keep q fmt pre suf
        = Inr (\<lparr>total_images = length image_files,
                success = length (filter (\<lambda>ok. ok) oks),
                failed = length (filter Not oks)\<rparr>, fs2,
               ((listed @ banner) @ lines)
                 @ ([Rule, Completed (length (filter (\<lambda>ok. ok) oks))]
                    @ (if 0 < length (filter Not oks) then [FailedLine (length (filter Not oks))] else [])))"
      using False assms(2,3) loop unfolding cfg_def banner_def
      by (simp add: batch_resize_images_exc_def Let_def quiet)
    moreover have "filter (\<lambda>m. is_success_line m \<or> is_failure_line m)
        (((listed @ banner) @ lines)
                 @ ([Rule, Completed (length (filter (\<lambda>ok. ok) oks))]
                    @ (if 0 < length (filter Not oks) then [FailedLine (length (filter Not oks))] else [])))
        = lines"
      using l0 per by (simp add: banner_def)
    ultimately show ?thesis using ln(1) len False by simp
  qed
qed

theorem batch_processes_every_image_witness:
  "(\<exists>printed.
     batch_resize_images_exc sym_env
       \<lparr>os_makedirs = (\<lambda>fs d. Inr (makedirs sym_env fs d)),
        os_listdir = (\<lambda>fs d. Inr (listdir sym_env fs d)),
        print_line = (\<lambda>m. None)\<rparr>
       \<lparr>folders = [''in''], files = []\<rparr>
       ''in'' ''out'' (Some 2) None True 95 None [] []
     = Inr (\<lparr>total_images = 0, success = 0, failed = 0\<rparr>,
            \<lparr>folders = [''out'', ''in''], files = []\<rparr>, printed)) \<and>
   (\<exists>printed.
     batch_resize_images_exc sym_env
       \<lparr>os_makedirs = (\<lambda>fs d. Inr (makedirs sym_env fs d)),
        os_listdir = (\<lambda>fs d. Inr (listdir sym_env fs d)),
        print_line = (\<lambda>m. None)\<rparr>
       \<lparr>folders = [''in''],
        files = [(''in/bad.png'', Junk),
                 (''in/a.png'', Picture (Decoded ''RGB'' (4, 2) (Some ''PNG'')))]\<rparr>
       ''in'' ''out'' (Some 2) None True 95 None [] []
     = Inr (\<lparr>total_images = 2, success = 1, failed = 1\<rparr>,
            \<lparr>folders = [''out'', ''in''],
             files = [(''out/a.png'',
                       Written (Resampled (Decoded ''RGB'' (4, 2) (Some ''PNG'')) (2, 1)) ''PNG'' None),
                      (''in/bad.png'', Junk),
                      (''in/a.png'', Picture (Decoded ''RGB'' (4, 2) (Some ''PNG'')))]\<rparr>,
            printed) \<and>
     filter (\<lambda>m. is_success_line m \<or> is_failure_line m) printed
       = [ErrorLine ''in/bad.png'' (LibraryError ''cannot identify image file''),
          ResizedLine ''a.png'' (4, 2) (2, 1)])"
proof -
  define P :: "sym_fs raising_calls" where
    "P = \<lparr>os_makedirs = (\<lambda>fs d. Inr (makedirs sym_env fs d)),
          os_listdir = (\<lambda>fs d. Inr (listdir sym_env fs d)),
          print_line = (\<lambda>m. None)\<rparr>"
  define fs0 :: sym_fs where
    "fs0 = \<lparr>folders = [''in''],
            files = [(''in/bad.png'', Junk),
                     (''in/a.png'', Picture (Decoded ''RGB'' (4, 2) (Some ''PNG'')))]\<rparr>"
  define fs1 :: sym_fs where
    "fs1 = \<lparr>folders = [''out'', ''in''],
            files = [(''in/bad.png'', Junk),
                     (''in/a.png'', Picture (Decoded ''RGB'' (4, 2) (Some ''PNG'')))]\<rparr>"
  define fs2 :: sym_fs where
    "fs2 = \<lparr>folders = [''out'', ''in''],
             files = [(''out/a.png'',
                       Written (Resampled (Decoded ''RGB'' (4, 2) (Some ''PNG'')) (2, 1)) ''PNG'' None),
                      (''in/bad.png'', Junk),
                      (''in/a.png'', Picture (Decoded ''RGB'' (4, 2) (Some ''PNG'')))]\<rparr>"
  have quiet: "\<forall>m. print_line P m = None" by (simp add: P_def)
  have mk: "os_makedirs P fs0 ''out'' = Inr fs1"
    by (simp add: P_def fs0_def fs1_def sym_env_def)
  have ls: "get_images_from_folder_exc sym_env P fs1 ''in'' None
      = Inr ([''in/bad.png'', ''in/a.png''], [])"
    by (simp add: get_images_from_folder_exc_def default_extensions_def P_def fs1_def sym_env_def
          path_eval)
  have d: "new_dimensions 4 2 (Some 2) None True = Inr (2, 1)"
    by (simp add: float_eval)
  have r1: "resize_image sym_env fs1 ''in/bad.png'' dst (Some 2) None True 95 None
      = (False, fs1, [ErrorLine ''in/bad.png'' (LibraryError ''cannot identify image file'')])" for dst
    by (simp add: resize_image_def sym_env_def sym_open_def fs1_def)
  have r2: "resize_image sym_env fs1 ''in/a.png'' ''out/a.png'' (Some 2) None True 95 None
      = (True, fs2, [ResizedLine ''a.png'' (4, 2) (2, 1)])"
    by (simp add: resize_image_def sym_env_def sym_open_def sym_resize_def fs1_def fs2_def d
          format_used_def is_jpeg_def path_eval)
  have n2: "path_join ''out'' (output_name [] [] None ''in/a.png'') = ''out/a.png''"
    by (simp add: output_name_def path_eval)
  have each: "each_image sym_env
      \<lparr>output_folder = ''out'', width = Some 2, height = None, maintain_aspect = True,
       quality = 95, output_format = None, prefix = [], suffix = []\<rparr>
      [''in/bad.png'', ''in/a.png''] fs1
      = ([False, True], fs2,
         [ErrorLine ''in/bad.png'' (LibraryError ''cannot identify image file''),
          ResizedLine ''a.png'' (4, 2) (2, 1)])"
    by (simp add: r1 r2 n2)
  define e0 :: sym_fs where "e0 = \<lparr>folders = [''in''], files = []\<rparr>"
  define e1 :: sym_fs where "e1 = \<lparr>folders = [''out'', ''in''], files = []\<rparr>"
  have mk0: "os_makedirs P e0 ''out'' = Inr e1"
    by (simp add: P_def e0_def e1_def sym_env_def)
  have ls0: "get_images_from_folder_exc sym_env P e1 ''in'' None = Inr ([], [])"
    by (simp add: get_images_from_folder_exc_def P_def e1_def sym_env_def)
  have each0: "each_image sym_env
      \<lparr>output_folder = ''out'', width = Some 2, height = None, maintain_aspect = True,
       quality = 95, output_format = None, prefix = [], suffix = []\<rparr>
      [] e1 = ([], e1, [])"
    by simp
  have empty: "\<exists>printed. batch_resize_images_exc sym_env P e0
        ''in'' ''out'' (Some 2) None True 95 None [] []
      = Inr (\<lparr>total_images = 0, success = 0, failed = 0\<rparr>, e1, printed)"
    using batch_processes_every_image[OF quiet mk0 ls0 each0] by auto
  have two: "\<exists>printed. batch_resize_images_exc sym_env P fs0
        ''in'' ''out'' (Some 2) None True 95 None [] []
      = Inr (\<lparr>total_images = 2, success = 1, failed = 1\<rparr>, fs2, printed) \<and>
      filter (\<lambda>m. is_success_line m \<or> is_failure_line m) printed
       = [ErrorLine ''in/bad.png'' (LibraryError ''cannot identify image file''),
          ResizedLine ''a.png'' (4, 2) (2, 1)]"
    using batch_processes_every_image[OF quiet mk ls each] by (simp add: numeral_2_eq_2)
  from empty two show ?thesis
    unfolding P_def fs0_def fs2_def e0_def e1_def by blast
qed

text \<open>
  C7 as stated, for every batch, fails: when the output folder cannot be made,
  \<^verbatim>\<open>os.makedirs\<close> raises at line 152, outside any \<^verbatim>\<open>try\<close>, and the exception leaves
  \<^verbatim>\<open>batch_resize_images\<close> with no summary returned.
\<close>

theorem batch_raises_counterexample:
  "batch_resize_images_exc sym_env
     \<lparr>os_makedirs = (\<lambda>fs d. Inl (LibraryError ''FileExistsError'')),
      os_listdir = (\<lambda>fs d. Inr (listdir sym_env fs d)),
      print_line = (\<lambda>m. None)\<rparr>
     \<lparr>folders = [''in''],
      files = [(''in/a.png'', Picture (Decoded ''RGB'' (4, 2) (Some ''PNG'')))]\<rparr>
     ''in'' ''out'' (Some 2) None True 95 None [] []
   = Inl (LibraryError ''FileExistsError'')"
  by (simp add: batch_resize_images_exc_def)

lemma listing_raises:
  "batch_resize_images_exc sym_env
     \<lparr>os_makedirs = (\<lambda>fs d. Inr (makedirs sym_env fs d)),
      os_listdir = (\<lambda>fs d. Inl (LibraryError ''NotADirectoryError'')),
      print_line = (\<lambda>m. None)\<rparr>
     \<lparr>folders = [''in''], files = []\<rparr>
     ''in'' ''out'' (Some 2) None True 95 None [] []
   = Inl (LibraryError ''NotADirectoryError'')"
  by (simp add: batch_resize_images_exc_def get_images_from_folder_exc_def sym_env_def)

lemma error_line_raises:
  "resize_image_exc sym_env
     \<lparr>os_makedirs = (\<lambda>fs d. Inr (makedirs sym_env fs d)),
      os_listdir = (\<lambda>fs d. Inr (listdir sym_env fs d)),
      print_line = (\<lambda>m. Some (LibraryError ''UnicodeEncodeError''))\<rparr>
     \<lparr>folders = [''in''], files = [(''in/bad.png'', Junk)]\<rparr>
     ''in/bad.png'' ''out/bad.png'' (Some 2) None True 95 None
   = Inl (LibraryError ''UnicodeEncodeError'')"
  by (simp add: resize_image_exc_def except_clause_def sym_env_def sym_open_def)

lemma batch_exc_quiet:
  assumes "\<forall>m. print_line P m = None"
    and "os_makedirs P fs out = Inr (makedirs E fs out)"
    and "os_listdir P (makedirs E fs out) inp = Inr (listdir E (makedirs E fs out) inp)"
  shows "batch_resize_images_exc E P fs inp out w h keep q fmt pre suf
           = Inr (batch_resize_images E fs inp out w h keep q fmt pre suf)"
proof -
  have quiet: "print_all P ms = None" for ms
    using assms(1) by (rule print_all_quiet)
  have g: "get_images_from_folder_exc E P (makedirs E fs out) inp None
      = Inr (get_images_from_folder E (makedirs E fs out) inp None)"
    using assms(1,3) by (rule get_images_exc_quiet)
  show ?thesis
    using assms(1,2)
    by (simp add: batch_resize_images_exc_def batch_resize_images_def g Let_def quiet
          resize_all_exc_quiet[OF assms(1)] split: prod.split)
qed

text \<open>
  C9. In the summary that \<^verbatim>\<open>batch_resize_images\<close> returns, the total is the number of
  image files listed and it is the sum of the successes and the failures.
\<close>

theorem summary_adds_up:
  "total_images (fst (batch_resize_images E fs inp out w h keep q fmt pre suf))
     = length (fst (get_images_from_folder E (makedirs E fs out) inp None)) \<and>
   total_images (fst (batch_resize_images E fs inp out w h keep q fmt pre suf))
     = success (fst (batch_resize_images E fs inp out w h keep q fmt pre suf))
       + failed (fst (batch_resize_images E fs inp out w h keep q fmt pre suf))"
  using batch_shape[of E fs inp out w h keep q fmt pre suf] by auto

text \<open>
  C8. When the format used for an image is not JPEG or JPG, \<^verbatim>\<open>resize_image\<close> does the
  same for every quality: the same result, the same file system afterwards, the same
  line printed.
\<close>

theorem quality_only_for_jpeg:
  assumes "\<forall>img. image_open E fs src = Inr img \<longrightarrow> \<not> is_jpeg (format_used fmt (image_format E img))"
  shows "resize_image E fs src dst wd ht keep q1 fmt = resize_image E fs src dst wd ht keep q2 fmt"
  using assms
  by (simp add: resize_image_def Let_def split: sum.split failure.split prod.split option.split)

theorem quality_only_for_jpeg_witness:
  "resize_image sym_env
     \<lparr>folders = [''in''], files = [(''in/a.png'', Picture (Decoded ''RGB'' (4, 2) (Some ''PNG'')))]\<rparr>
     ''in/a.png'' ''out/a.png'' (Some 2) None True 10 None
   = resize_image sym_env
     \<lparr>folders = [''in''], files = [(''in/a.png'', Picture (Decoded ''RGB'' (4, 2) (Some ''PNG'')))]\<rparr>
     ''in/a.png'' ''out/a.png'' (Some 2) None True 95 None"
  by (rule quality_only_for_jpeg)
     (simp add: sym_env_def sym_open_def format_used_def is_jpeg_def path_eval)

text \<open>
  C3 against the code. On the way to a JPEG file an image of mode LA is pasted on the
  white background with no mask: the mask is the last band only when the mode is RGBA,
  as it is for an RGBA image and for a palette image after its conversion.
\<close>

theorem jpeg_la_pasted_without_mask:
  assumes "image_mode E img = ''LA''"
  shows "rgb_for_jpeg E img =
           (case image_new_rgb E (image_size E img) (255, 255, 255) of
              Inl e \<Rightarrow> Inl e
            | Inr white \<Rightarrow> image_paste E white img None)"
  using assms by (simp add: rgb_for_jpeg_def split: sum.split)

theorem jpeg_la_pasted_without_mask_witness:
  "rgb_for_jpeg sym_env (Resampled (Decoded ''LA'' (4, 2) (Some ''PNG'')) (2, 1))
     = Inr (Pasted (Blank (2, 1) (255, 255, 255))
              (Resampled (Decoded ''LA'' (4, 2) (Some ''PNG'')) (2, 1)) None)"
proof -
  have m: "image_mode sym_env (Resampled (Decoded ''LA'' (4, 2) (Some ''PNG'')) (2, 1)) = ''LA''"
    by (simp add: sym_env_def)
  show ?thesis
    unfolding jpeg_la_pasted_without_mask[OF m] by (simp add: sym_env_def)
qed

lemma jpeg_rgba_pasted_with_alpha:
  "rgb_for_jpeg sym_env (Resampled (Decoded ''RGBA'' (4, 2) (Some ''PNG'')) (2, 1))
     = Inr (Pasted (Blank (2, 1) (255, 255, 255))
              (Resampled (Decoded ''RGBA'' (4, 2) (Some ''PNG'')) (2, 1))
              (Some (LastBand (Resampled (Decoded ''RGBA'' (4, 2) (Some ''PNG'')) (2, 1)))))"
  by (simp add: rgb_for_jpeg_def sym_env_def)

lemma jpeg_palette_pasted_with_alpha:
  "rgb_for_jpeg sym_env (Resampled (Decoded ''P'' (4, 2) (Some ''GIF'')) (2, 1))
     = Inr (Pasted (Blank (2, 1) (255, 255, 255))
              (Converted (Resampled (Decoded ''P'' (4, 2) (Some ''GIF'')) (2, 1)) ''RGBA'')
              (Some (LastBand (Converted (Resampled (Decoded ''P'' (4, 2) (Some ''GIF'')) (2, 1)) ''RGBA''))))"
  by (simp add: rgb_for_jpeg_def sym_env_def)

lemma batch_goes_on_after_a_failure:
  "fst (batch_resize_images sym_env
     \<lparr>folders = [''in''],
      files = [(''in/bad.png'', Junk), (''in/a.png'', Picture (Decoded ''RGB'' (4, 2) (Some ''PNG'')))]\<rparr>
     ''in'' ''out'' (Some 2) None True 95 None [] [])
   = \<lparr>total_images = 2, success = 1, failed = 1\<rparr>"
proof -
  have d: "new_dimensions 4 2 (Some 2) None True = Inr (2, 1)"
    by (simp add: float_eval)
  show ?thesis
    by (simp add: run_eval path_eval d)
qed

end
